theory Spec2Isabelle
  imports Complex_Main
begin

section \<open>The bookshop chatbot: dispatch chain and session memory\<close>

text \<open>
  A shallow embedding of \<^verbatim>\<open>src/GPT_backend.py\<close>: the \<^verbatim>\<open>/chatbot\<close> handler, the five
  functions that call the chat-completion service, and the per-session \<^verbatim>\<open>ChatHistory\<close>.

  What lies outside the repository is a parameter of the model:
  \<^item> the chat-completion service is a \<open>client\<close>: any function from the number of calls
    made so far and the request to a reply, which is an exception or a text;
  \<^item> \<^verbatim>\<open>json.loads\<close>, \<^verbatim>\<open>float\<close> and the validation done by the pydantic models are the
    fields of a record \<open>env\<close>.
  Every function that can call the service takes the log of the calls made so far and returns
  the extended log, so that which calls a request makes, and in which order, is part of its
  result.
\<close>

subsection \<open>Python values\<close>

text \<open>
  The values that \<^verbatim>\<open>json.loads\<close> and \<^verbatim>\<open>request.get_json()\<close> produce. \<^verbatim>\<open>None\<close> is \<open>JNull\<close>.
  Numbers are rationals: the rounding of floats and the non-finite floats are not modelled.
  A dict is an association list in insertion order. Strings are lists of 8-bit characters,
  read as the code points below 256.
\<close>

datatype json =
    JNull
  | JBool bool
  | JNum rat
  | JStr string
  | JArr "json list"
  | JObj "(string \<times> json) list"

text \<open>The exceptions of the model. \<open>Err500\<close> below carries one, standing for its \<^verbatim>\<open>str(e)\<close>.\<close>

datatype exn =
    OracleError string
  | ValueError string
  | TypeError
  | KeyError string
  | AttributeError
  | JSONDecodeError
  | ValidationError
  | RequestError string

text \<open>\<^verbatim>\<open>bool(x)\<close>, as \<^verbatim>\<open>if x\<close> and \<^verbatim>\<open>not x\<close> compute it.\<close>

fun truthy :: "json \<Rightarrow> bool" where
  "truthy JNull = False"
| "truthy (JBool b) = b"
| "truthy (JNum r) = (r \<noteq> 0)"
| "truthy (JStr s) = (s \<noteq> [])"
| "truthy (JArr xs) = (xs \<noteq> [])"
| "truthy (JObj kvs) = (kvs \<noteq> [])"

text \<open>\<^verbatim>\<open>x.get(k, default)\<close>: only a dict has the method.\<close>

fun py_get :: "json \<Rightarrow> string \<Rightarrow> json \<Rightarrow> exn + json" where
  "py_get (JObj kvs) k dflt = Inr (case map_of kvs k of None \<Rightarrow> dflt | Some v \<Rightarrow> v)"
| "py_get _ k dflt = Inl AttributeError"

text \<open>\<^verbatim>\<open>x[k]\<close> for a string \<open>k\<close>: a list or a string takes integer indices only.\<close>

fun getitem :: "json \<Rightarrow> string \<Rightarrow> exn + json" where
  "getitem (JObj kvs) k = (case map_of kvs k of None \<Rightarrow> Inl (KeyError k) | Some v \<Rightarrow> Inr v)"
| "getitem _ k = Inl TypeError"

text \<open>\<^verbatim>\<open>x[k] = v\<close> for a string \<open>k\<close>: an existing key keeps its place, a new one goes last.\<close>

fun update_key :: "string \<Rightarrow> json \<Rightarrow> (string \<times> json) list \<Rightarrow> (string \<times> json) list" where
  "update_key k v [] = [(k, v)]"
| "update_key k v (p # ps) = (if fst p = k then (k, v) # ps else p # update_key k v ps)"

fun setitem :: "json \<Rightarrow> string \<Rightarrow> json \<Rightarrow> exn + json" where
  "setitem (JObj kvs) k v = Inr (JObj (update_key k v kvs))"
| "setitem _ k v = Inl TypeError"

text \<open>\<^verbatim>\<open>sub in s\<close> on strings.\<close>

fun starts_with :: "string \<Rightarrow> string \<Rightarrow> bool" where
  "starts_with [] s = True"
| "starts_with (c # cs) [] = False"
| "starts_with (c # cs) (d # ds) = (c = d \<and> starts_with cs ds)"

fun is_substring :: "string \<Rightarrow> string \<Rightarrow> bool" where
  "is_substring sub [] = (sub = [])"
| "is_substring sub (d # ds) = (starts_with sub (d # ds) \<or> is_substring sub ds)"

text \<open>
  \<^verbatim>\<open>k in x\<close> for a string \<open>k\<close>: a key of a dict, an element of a list, a substring of a
  string; \<^verbatim>\<open>TypeError\<close> on \<^verbatim>\<open>None\<close>, a bool or a number.
\<close>

fun contains :: "string \<Rightarrow> json \<Rightarrow> exn + bool" where
  "contains k (JObj kvs) = Inr (k \<in> set (map fst kvs))"
| "contains k (JArr xs) = Inr (JStr k \<in> set xs)"
| "contains k (JStr s) = Inr (is_substring k s)"
| "contains k _ = Inl TypeError"

text \<open>\<^verbatim>\<open>s.strip()\<close> and \<^verbatim>\<open>s.lower()\<close> on code points below 256.\<close>

definition isspace :: "char \<Rightarrow> bool" where
  "isspace c = (let n = (of_char c :: nat) in
     (9 \<le> n \<and> n \<le> 13) \<or> (28 \<le> n \<and> n \<le> 32) \<or> n = 133 \<or> n = 160)"

definition strip :: "string \<Rightarrow> string" where
  "strip s = rev (dropWhile isspace (rev (dropWhile isspace s)))"

definition lower_char :: "char \<Rightarrow> char" where
  "lower_char c = (let n = (of_char c :: nat) in
     if (65 \<le> n \<and> n \<le> 90) \<or> (192 \<le> n \<and> n \<le> 222 \<and> n \<noteq> 215)
     then char_of (n + 32) else c)"

definition lower :: "string \<Rightarrow> string" where
  "lower s = map lower_char s"

text \<open>\<^verbatim>\<open>s.replace(a, b)\<close> for single characters.\<close>

definition replace_char :: "char \<Rightarrow> char \<Rightarrow> string \<Rightarrow> string" where
  "replace_char a b s = map (\<lambda>c. if c = a then b else c) s"

text \<open>\<^verbatim>\<open>s.find(c)\<close> and \<^verbatim>\<open>s.rfind(c)\<close> for a single character: the index, or -1.\<close>

fun find_char :: "char \<Rightarrow> string \<Rightarrow> int" where
  "find_char c [] = -1"
| "find_char c (d # ds) =
     (if c = d then 0 else (let i = find_char c ds in if i = -1 then -1 else i + 1))"

definition rfind_char :: "char \<Rightarrow> string \<Rightarrow> int" where
  "rfind_char c s =
     (let i = find_char c (rev s) in if i = -1 then -1 else int (length s) - 1 - i)"

text \<open>\<^verbatim>\<open>s[i:j]\<close>: a negative index counts from the end, and both are clipped to the string.\<close>

definition clip_index :: "int \<Rightarrow> 'a list \<Rightarrow> nat" where
  "clip_index i s = (if i < 0 then nat (int (length s) + i) else min (nat i) (length s))"

definition slice :: "int \<Rightarrow> int \<Rightarrow> 'a list \<Rightarrow> 'a list" where
  "slice i j s = (let a = clip_index i s; b = clip_index j s in take (b - a) (drop a s))"

text \<open>\<^verbatim>\<open>xs[-n:]\<close> for \<open>n > 0\<close>: the last \<open>n\<close> elements, all of them when there are fewer.\<close>

definition last_n :: "nat \<Rightarrow> 'a list \<Rightarrow> 'a list" where
  "last_n n xs = drop (length xs - n) xs"

text \<open>
  \<^verbatim>\<open>', '.join(x)\<close>: the strings that iterating \<open>x\<close> yields (the elements of a list, the
  characters of a string, the keys of a dict), \<^verbatim>\<open>TypeError\<close> when \<open>x\<close> is not iterable or an
  item is not a string.
\<close>

fun str_of :: "json \<Rightarrow> string option" where
  "str_of (JStr s) = Some s"
| "str_of _ = None"

fun str_items :: "json \<Rightarrow> exn + string list" where
  "str_items (JArr xs) =
     (if list_all (\<lambda>x. str_of x \<noteq> None) xs then Inr (map (\<lambda>x. the (str_of x)) xs)
      else Inl TypeError)"
| "str_items (JStr s) = Inr (map (\<lambda>c. [c]) s)"
| "str_items (JObj kvs) = Inr (map fst kvs)"
| "str_items _ = Inl TypeError"

fun join :: "string \<Rightarrow> string list \<Rightarrow> string" where
  "join sep [] = []"
| "join sep [x] = x"
| "join sep (x # y # ys) = x @ sep @ join sep (y # ys)"

definition py_join :: "string \<Rightarrow> json \<Rightarrow> exn + string" where
  "py_join sep x = (case str_items x of Inl e \<Rightarrow> Inl e | Inr ss \<Rightarrow> Inr (join sep ss))"

subsection \<open>The pydantic models\<close>

text \<open>
  \<^verbatim>\<open>Message.timestamp\<close> is left out: its default \<^verbatim>\<open>datetime.now()\<close> is evaluated once,
  when the class is defined, the handler never passes another value, and nothing reads it.
  \<^verbatim>\<open>last_recommended_books\<close> holds dicts (\<^verbatim>\<open>book.dict()\<close>), and \<^verbatim>\<open>last_query\<close> holds the
  query as the request carried it, \<^verbatim>\<open>None\<close> at first.
\<close>

record message =
  role :: string
  content :: string

record chat_history =
  messages :: "message list"
  last_recommended_books :: "json list"
  last_query :: json

record book =
  title :: string
  author :: "string list"
  price :: rat
  summary :: string
  purchase_links :: "(string \<times> string) list"

record Output =
  books :: "book list"

text \<open>\<^verbatim>\<open>ChatHistory()\<close>: pydantic copies the defaults, so no two sessions share a list.\<close>

definition new_history :: chat_history where
  "new_history = \<lparr>messages = [], last_recommended_books = [], last_query = JNull\<rparr>"

text \<open>\<^verbatim>\<open>book.dict()\<close>.\<close>

definition book_dict :: "book \<Rightarrow> json" where
  "book_dict b = JObj
     [(''title'', JStr (title b)),
      (''author'', JArr (map JStr (author b))),
      (''price'', JNum (price b)),
      (''summary'', JStr (summary b)),
      (''purchase_links'', JObj (map (\<lambda>(k, v). (k, JStr v)) (purchase_links b)))]"

subsection \<open>What the repository does not define\<close>

text \<open>
  \<^item> \<open>json_loads\<close>: \<^verbatim>\<open>json.loads\<close>, \<open>None\<close> when it raises;
  \<^item> \<open>py_float\<close>: \<^verbatim>\<open>float(x)\<close> for an \<open>x\<close> that is neither an int nor a float;
  \<^item> \<open>validate_book\<close>: the validation of one entry of \<^verbatim>\<open>Output(books=...)\<close> against
    \<^verbatim>\<open>Book\<close>, \<open>None\<close> when it raises;
  \<^item> \<open>validate_str\<close>: the validation of \<^verbatim>\<open>Message(content=...)\<close> against \<^verbatim>\<open>str\<close>, \<open>None\<close>
    when it raises.
\<close>

record env =
  json_loads :: "string \<Rightarrow> json option"
  py_float :: "json \<Rightarrow> exn + rat"
  validate_book :: "json \<Rightarrow> book option"
  validate_str :: "json \<Rightarrow> string option"

subsection \<open>The chat-completion service\<close>

text \<open>
  The content of a request message is kept as the template the source formats and the values
  it formats into it, in the order of the f-string; \<open>Val\<close> is a value sent as it is.
\<close>

datatype prompt =
    Val json
  | TopicSystem
  | BookFollowupSystem
  | BookFollowupUser "json list" json
  | CriteriaSystem
  | CriteriaUser json json
  | DetailSystem json string json json
  | LinksUser json json
  | RecommendSystem "json option"

text \<open>The function that makes the call.\<close>

datatype site =
    AnalyzeQuery
  | IsBookFollowup
  | IsCriteriaFollowup
  | GetBookDetails
  | FetchRealLinks
  | GenerateResponse

datatype reply = Raises exn | Content string

type_synonym chat_msg = "string \<times> prompt"

type_synonym call = "site \<times> chat_msg list \<times> reply"

type_synonym client = "nat \<Rightarrow> site \<Rightarrow> chat_msg list \<Rightarrow> reply"

text \<open>
  \<^verbatim>\<open>client.chat.completions.create(...)\<close>, with
  \<^verbatim>\<open>response.choices[0].message.content\<close> as the text of the reply.
\<close>

definition create :: "client \<Rightarrow> site \<Rightarrow> chat_msg list \<Rightarrow> call list \<Rightarrow> reply \<times> call list" where
  "create orc s msgs lg = (let r = orc (length lg) s msgs in (r, lg @ [(s, msgs, r)]))"

text \<open>\<^verbatim>\<open>{"role": msg.role, "content": msg.content}\<close> for each message of a slice.\<close>

definition history_msgs :: "message list \<Rightarrow> chat_msg list" where
  "history_msgs ms = map (\<lambda>m. (role m, Val (JStr (content m)))) ms"

subsection \<open>The five functions that call the service\<close>

definition analyze_query ::
  "client \<Rightarrow> json \<Rightarrow> message list \<Rightarrow> call list \<Rightarrow> (exn + bool) \<times> call list" where
  "analyze_query orc query chat_hist lg =
     (let msgs = [(''system'', TopicSystem)] @ history_msgs (last_n 3 chat_hist)
                 @ [(''user'', Val query)]
      in case create orc AnalyzeQuery msgs lg of
           (Raises e, lg') \<Rightarrow> (Inl e, lg')
         | (Content c, lg') \<Rightarrow> (Inr (lower (strip c) = ''true''), lg'))"

text \<open>
  The \<^verbatim>\<open>try\<close> block of \<^verbatim>\<open>is_book_followup\<close>, on the text of the reply: \<^verbatim>\<open>None\<close> for
  \<^verbatim>\<open>null\<close> and for a text that \<^verbatim>\<open>json.loads\<close> rejects, the parsed value otherwise.
\<close>

definition parse_followup :: "env \<Rightarrow> string \<Rightarrow> json" where
  "parse_followup env c =
     (if lower (strip c) = ''null'' then JNull
      else case json_loads env (strip c) of None \<Rightarrow> JNull | Some v \<Rightarrow> v)"

text \<open>The call is outside the \<^verbatim>\<open>try\<close>.\<close>

definition is_book_followup ::
  "env \<Rightarrow> client \<Rightarrow> json \<Rightarrow> json list \<Rightarrow> call list \<Rightarrow> (exn + json) \<times> call list" where
  "is_book_followup env orc query last_books lg =
     (if last_books = [] then (Inr JNull, lg)
      else
        (let msgs = [(''system'', BookFollowupSystem),
                     (''user'', BookFollowupUser last_books query)]
         in case create orc IsBookFollowup msgs lg of
              (Raises e, lg') \<Rightarrow> (Inl e, lg')
            | (Content c, lg') \<Rightarrow> (Inr (parse_followup env c), lg')))"

definition is_criteria_followup ::
  "client \<Rightarrow> json \<Rightarrow> json \<Rightarrow> call list \<Rightarrow> (exn + bool) \<times> call list" where
  "is_criteria_followup orc query last_q lg =
     (let msgs = [(''system'', CriteriaSystem), (''user'', CriteriaUser last_q query)]
      in case create orc IsCriteriaFollowup msgs lg of
           (Raises e, lg') \<Rightarrow> (Inl e, lg')
         | (Content c, lg') \<Rightarrow> (Inr (lower (strip c) = ''true''), lg'))"

text \<open>The f-string reads \<^verbatim>\<open>book['title']\<close>, \<^verbatim>\<open>book['author']\<close> and \<^verbatim>\<open>book['summary']\<close>
  before the call is made.\<close>

definition get_book_details ::
  "client \<Rightarrow> json \<Rightarrow> json \<Rightarrow> call list \<Rightarrow> (exn + string) \<times> call list" where
  "get_book_details orc book query lg =
     (case getitem book ''title'' of Inl e \<Rightarrow> (Inl e, lg) | Inr t \<Rightarrow>
      case getitem book ''author'' of Inl e \<Rightarrow> (Inl e, lg) | Inr a \<Rightarrow>
      case py_join '', '' a of Inl e \<Rightarrow> (Inl e, lg) | Inr authors \<Rightarrow>
      case getitem book ''summary'' of Inl e \<Rightarrow> (Inl e, lg) | Inr s \<Rightarrow>
      case create orc GetBookDetails [(''system'', DetailSystem t authors s query)] lg of
        (Raises e, lg') \<Rightarrow> (Inl e, lg')
      | (Content c, lg') \<Rightarrow> (Inr (strip c), lg'))"

text \<open>\<^verbatim>\<open>isinstance(links, dict) and 'amazon' in links and 'lafeltrinelli' in links\<close>.\<close>

fun links_ok :: "json \<Rightarrow> bool" where
  "links_ok (JObj kvs) = (''amazon'' \<in> set (map fst kvs) \<and> ''lafeltrinelli'' \<in> set (map fst kvs))"
| "links_ok _ = False"

text \<open>The \<^verbatim>\<open>except\<close> branch: \<^verbatim>\<open>title.lower()\<close> raises there when the title is no string.\<close>

fun search_links :: "json \<Rightarrow> exn + json" where
  "search_links (JStr t) =
     (let title_url = replace_char CHR '' '' CHR ''+'' (lower t)
      in Inr (JObj [(''amazon'', JStr (''https://www.amazon.it/s?k='' @ title_url)),
                    (''lafeltrinelli'',
                     JStr (''https://www.lafeltrinelli.it/search?q='' @ title_url))]))"
| "search_links _ = Inl AttributeError"

definition fetch_real_links ::
  "env \<Rightarrow> client \<Rightarrow> json \<Rightarrow> json \<Rightarrow> call list \<Rightarrow> (exn + json) \<times> call list" where
  "fetch_real_links env orc title_v author_v lg =
     (case create orc FetchRealLinks [(''user'', LinksUser title_v author_v)] lg of
        (Raises e, lg') \<Rightarrow> (Inl e, lg')
      | (Content c, lg') \<Rightarrow>
          (let content0 = strip c;
               start = find_char CHR ''{'' content0;
               end_v = rfind_char CHR ''}'' content0 + 1;
               content1 = (if start \<noteq> -1 \<and> end_v \<noteq> -1 then slice start end_v content0
                           else content0)
           in case json_loads env content1 of
                None \<Rightarrow> (search_links title_v, lg')
              | Some links \<Rightarrow>
                  if links_ok links then (Inr links, lg') else (search_links title_v, lg')))"

subsection \<open>generate\_response\<close>

text \<open>\<^verbatim>\<open>all(key in book for key in [...])\<close>: it stops at the first key that is missing.\<close>

fun all_keys_in :: "string list \<Rightarrow> json \<Rightarrow> exn + bool" where
  "all_keys_in [] b = Inr True"
| "all_keys_in (k # ks) b =
     (case contains k b of
        Inl e \<Rightarrow> Inl e
      | Inr found \<Rightarrow> if found then all_keys_in ks b else Inr False)"

definition required_keys :: "string list" where
  "required_keys = [''title'', ''author'', ''price'', ''summary'', ''purchase_links'']"

text \<open>\<^verbatim>\<open>isinstance(x, list)\<close> and \<^verbatim>\<open>isinstance(x, (int, float))\<close>; a bool is an int.\<close>

fun is_list :: "json \<Rightarrow> bool" where
  "is_list (JArr xs) = True"
| "is_list _ = False"

fun is_number :: "json \<Rightarrow> bool" where
  "is_number (JNum r) = True"
| "is_number (JBool b) = True"
| "is_number _ = False"

text \<open>The body of the loop up to the call of \<^verbatim>\<open>fetch_real_links\<close>.\<close>

definition check_book :: "env \<Rightarrow> json \<Rightarrow> exn + json" where
  "check_book env b =
     (case all_keys_in required_keys b of Inl e \<Rightarrow> Inl e | Inr ok \<Rightarrow>
      if \<not> ok then Inl (ValueError ''Invalid book structure'') else
      case getitem b ''author'' of Inl e \<Rightarrow> Inl e | Inr a \<Rightarrow>
      case (if \<not> is_list a then setitem b ''author'' (JArr [a]) else Inr b) of
        Inl e \<Rightarrow> Inl e | Inr b1 \<Rightarrow>
      case getitem b1 ''price'' of Inl e \<Rightarrow> Inl e | Inr p \<Rightarrow>
      if \<not> is_number p
      then (case py_float env p of Inl e \<Rightarrow> Inl e | Inr r \<Rightarrow> setitem b1 ''price'' (JNum r))
      else Inr b1)"

text \<open>\<^verbatim>\<open>book['author'][0] if book['author'] else ""\<close>.\<close>

fun first_author :: "json \<Rightarrow> exn + json" where
  "first_author (JArr (x # xs)) = Inr x"
| "first_author (JStr (c # cs)) = Inr (JStr [c])"
| "first_author (JObj (p # ps)) = Inl (KeyError ''0'')"
| "first_author a = (if truthy a then Inl TypeError else Inr (JStr []))"

definition process_book ::
  "env \<Rightarrow> client \<Rightarrow> json \<Rightarrow> call list \<Rightarrow> (exn + json) \<times> call list" where
  "process_book env orc b lg =
     (case check_book env b of Inl e \<Rightarrow> (Inl e, lg) | Inr b1 \<Rightarrow>
      case getitem b1 ''title'' of Inl e \<Rightarrow> (Inl e, lg) | Inr t \<Rightarrow>
      case getitem b1 ''author'' of Inl e \<Rightarrow> (Inl e, lg) | Inr a \<Rightarrow>
      case first_author a of Inl e \<Rightarrow> (Inl e, lg) | Inr a0 \<Rightarrow>
      case fetch_real_links env orc t a0 lg of
        (Inl e, lg') \<Rightarrow> (Inl e, lg')
      | (Inr real_links, lg') \<Rightarrow> (setitem b1 ''purchase_links'' real_links, lg'))"

text \<open>\<^verbatim>\<open>for book in books\<close>, with \<^verbatim>\<open>processed_books\<close> as the accumulator.\<close>

fun process_books ::
  "env \<Rightarrow> client \<Rightarrow> json list \<Rightarrow> json list \<Rightarrow> call list \<Rightarrow> (exn + json list) \<times> call list"
  where
  "process_books env orc [] processed lg = (Inr processed, lg)"
| "process_books env orc (b # bs) processed lg =
     (case process_book env orc b lg of
        (Inl e, lg') \<Rightarrow> (Inl e, lg')
      | (Inr b', lg') \<Rightarrow> process_books env orc bs (processed @ [b']) lg')"

text \<open>\<^verbatim>\<open>Output(books=processed_books)\<close>: every entry is validated against \<^verbatim>\<open>Book\<close>.\<close>

fun validate_books :: "env \<Rightarrow> json list \<Rightarrow> book list option" where
  "validate_books env [] = Some []"
| "validate_books env (b # bs) =
     (case validate_book env b of
        None \<Rightarrow> None
      | Some v \<Rightarrow> (case validate_books env bs of None \<Rightarrow> None | Some vs \<Rightarrow> Some (v # vs)))"

text \<open>The checks on the parsed reply, up to the loop.\<close>

fun reply_books :: "json \<Rightarrow> exn + json list" where
  "reply_books (JObj kvs) =
     (case map_of kvs ''books'' of
        None \<Rightarrow> Inl (ValueError ''Invalid response structure'')
      | Some (JArr []) \<Rightarrow> Inl (ValueError ''No books in response'')
      | Some (JArr (b # bs)) \<Rightarrow> Inr (b # bs)
      | Some _ \<Rightarrow> Inl (ValueError ''No books in response''))"
| "reply_books _ = Inl (ValueError ''Invalid response structure'')"

text \<open>The \<^verbatim>\<open>try\<close> block.\<close>

definition try_generate ::
  "env \<Rightarrow> client \<Rightarrow> chat_msg list \<Rightarrow> call list \<Rightarrow> (exn + Output) \<times> call list" where
  "try_generate env orc msgs lg =
     (case create orc GenerateResponse msgs lg of
        (Raises e, lg1) \<Rightarrow> (Inl e, lg1)
      | (Content c, lg1) \<Rightarrow>
          (case json_loads env (strip c) of None \<Rightarrow> (Inl JSONDecodeError, lg1) | Some data \<Rightarrow>
           case reply_books data of Inl e \<Rightarrow> (Inl e, lg1) | Inr bs \<Rightarrow>
           case process_books env orc bs [] lg1 of
             (Inl e, lg2) \<Rightarrow> (Inl e, lg2)
           | (Inr processed, lg2) \<Rightarrow>
               (case validate_books env processed of
                  None \<Rightarrow> (Inl ValidationError, lg2)
                | Some vs \<Rightarrow> (Inr \<lparr>books = vs\<rparr>, lg2))))"

text \<open>The \<^verbatim>\<open>except\<close> block: the default books.\<close>

definition default_books :: "book list" where
  "default_books =
     [\<lparr>title = ''The Great Gatsby'',
       author = [''F. Scott Fitzgerald''],
       price = 1299 / 100,
       summary = ''A story of the fabulously wealthy Jay Gatsby and his love for the beautiful Daisy Buchanan.'',
       purchase_links =
         [(''amazon'', ''https://www.amazon.it/Great-Gatsby-F-Scott-Fitzgerald/dp/0141182636''),
          (''lafeltrinelli'', ''https://www.lafeltrinelli.it/libri/f-scott-fitzgerald/great-gatsby-9780141182636'')]\<rparr>,
      \<lparr>title = ''1984'',
       author = [''George Orwell''],
       price = 1499 / 100,
       summary = ''A dystopian novel set in a totalitarian society where critical thought is suppressed.'',
       purchase_links =
         [(''amazon'', ''https://www.amazon.it/1984-George-Orwell/dp/0451524934''),
          (''lafeltrinelli'', ''https://www.lafeltrinelli.it/libri/george-orwell/1984-9780451524935'')]\<rparr>,
      \<lparr>title = ''To Kill a Mockingbird'',
       author = [''Harper Lee''],
       price = 1399 / 100,
       summary = ''The story of racial injustice and the loss of innocence in the American South.'',
       purchase_links =
         [(''amazon'', ''https://www.amazon.it/Kill-Mockingbird-Harper-Lee/dp/0446310786''),
          (''lafeltrinelli'', ''https://www.lafeltrinelli.it/libri/harper-lee/kill-mockingbird-9780446310789'')]\<rparr>]"

text \<open>\<^verbatim>\<open>{f'Additional criteria: {criteria}' if criteria else ''}\<close> in the system prompt.\<close>

definition recommend_system :: "json \<Rightarrow> prompt" where
  "recommend_system criteria = RecommendSystem (if truthy criteria then Some criteria else None)"

definition generate_response ::
  "env \<Rightarrow> client \<Rightarrow> json \<Rightarrow> message list \<Rightarrow> json \<Rightarrow> call list \<Rightarrow> Output \<times> call list" where
  "generate_response env orc query chat_hist criteria lg =
     (let msgs = [(''system'', recommend_system criteria)] @ history_msgs (last_n 5 chat_hist)
                 @ [(''user'', Val query)]
      in case try_generate env orc msgs lg of
           (Inl e, lg') \<Rightarrow> (\<lparr>books = default_books\<rparr>, lg')
         | (Inr out, lg') \<Rightarrow> (out, lg'))"

subsection \<open>The session store\<close>

text \<open>
  \<^verbatim>\<open>chat_histories\<close> is a dict keyed by whatever \<^verbatim>\<open>session_id\<close> the request carries. A list
  or a dict is not hashable; \<^verbatim>\<open>True\<close> and \<^verbatim>\<open>1\<close>, \<^verbatim>\<open>False\<close> and \<^verbatim>\<open>0\<close> are the same key.
\<close>

datatype session_key = KNone | KNum rat | KStr string

fun hash_key :: "json \<Rightarrow> exn + session_key" where
  "hash_key JNull = Inr KNone"
| "hash_key (JBool b) = Inr (KNum (if b then 1 else 0))"
| "hash_key (JNum r) = Inr (KNum r)"
| "hash_key (JStr s) = Inr (KStr s)"
| "hash_key (JArr xs) = Inl TypeError"
| "hash_key (JObj kvs) = Inl TypeError"

type_synonym chat_histories = "session_key \<rightharpoonup> chat_history"

text \<open>The history of a session, that of a new session when the key is not in the store.\<close>

definition history_of :: "chat_histories \<Rightarrow> session_key \<Rightarrow> chat_history" where
  "history_of store k = (case store k of None \<Rightarrow> new_history | Some h \<Rightarrow> h)"

text \<open>\<^verbatim>\<open>chat_history.messages.append(Message(role=r, content=c))\<close>.\<close>

definition append_message :: "string \<Rightarrow> string \<Rightarrow> chat_history \<Rightarrow> chat_history" where
  "append_message r c h = h\<lparr>messages := messages h @ [\<lparr>role = r, content = c\<rparr>]\<rparr>"

subsection \<open>The handler\<close>

text \<open>
  \<open>Ok200 response books session_id\<close> is the 200 reply, \<open>books = None\<close> being \<^verbatim>\<open>"books": null\<close>;
  \<open>Err400\<close> and \<open>Err500\<close> carry the \<^verbatim>\<open>error\<close> field.
\<close>

datatype response =
    Ok200 string "json list option" json
  | Err400 string
  | Err500 exn

definition criteria_caption :: string where
  "criteria_caption = ''Here are some books matching your criteria:''"

definition rejection_text :: string where
  "rejection_text =
     ''I'm just a bookseller, I can help you find the next book to read but nothing else''"

definition fresh_caption :: string where
  "fresh_caption = ''Here are some books you might like:''"

text \<open>
  The handler after the user message is appended, in four parts, last first. Each returns
  the response, the history as the request leaves it, and the log. An exception leaves the
  history as it is at that point: the object in the store is mutated in place.
\<close>

text \<open>Lines 390 to 403: the fresh recommendation.\<close>

definition fresh_branch ::
  "env \<Rightarrow> client \<Rightarrow> json \<Rightarrow> json \<Rightarrow> chat_history \<Rightarrow> call list
     \<Rightarrow> response \<times> chat_history \<times> call list" where
  "fresh_branch env orc query session_id h lg =
     (case generate_response env orc query (messages h) JNull lg of
        (answer, lg') \<Rightarrow>
          (let recommended = map book_dict (books answer);
               h1 = h\<lparr>last_recommended_books := recommended\<rparr>;
               h2 = h1\<lparr>last_query := query\<rparr>;
               h3 = append_message ''assistant'' fresh_caption h2
           in (Ok200 fresh_caption (Some recommended) session_id, h3, lg')))"

text \<open>Lines 378 to 403: the topic classification.\<close>

definition topic_branch ::
  "env \<Rightarrow> client \<Rightarrow> json \<Rightarrow> json \<Rightarrow> chat_history \<Rightarrow> call list
     \<Rightarrow> response \<times> chat_history \<times> call list" where
  "topic_branch env orc query session_id h lg =
     (case analyze_query orc query (messages h) lg of
        (Inl e, lg') \<Rightarrow> (Err500 e, h, lg')
      | (Inr is_book_related, lg') \<Rightarrow>
          if \<not> is_book_related
          then (Ok200 rejection_text None session_id,
                append_message ''assistant'' rejection_text h, lg')
          else fresh_branch env orc query session_id h lg')"

text \<open>Lines 363 to 376: the follow-up with criteria.\<close>

definition criteria_branch ::
  "env \<Rightarrow> client \<Rightarrow> json \<Rightarrow> json \<Rightarrow> chat_history \<Rightarrow> call list
     \<Rightarrow> response \<times> chat_history \<times> call list" where
  "criteria_branch env orc query session_id h lg =
     (if truthy (last_query h)
      then
        (case is_criteria_followup orc query (last_query h) lg of
           (Inl e, lg') \<Rightarrow> (Err500 e, h, lg')
         | (Inr followup, lg') \<Rightarrow>
             if followup
             then
               (case generate_response env orc (last_query h) (messages h) query lg' of
                  (answer, lg'') \<Rightarrow>
                    (let recommended = map book_dict (books answer);
                         h1 = h\<lparr>last_recommended_books := recommended\<rparr>;
                         h2 = append_message ''assistant'' criteria_caption h1
                     in (Ok200 criteria_caption (Some recommended) session_id, h2, lg'')))
             else topic_branch env orc query session_id h lg')
      else topic_branch env orc query session_id h lg)"

text \<open>Lines 350 to 360: the follow-up on a recommended book.\<close>

definition dispatch ::
  "env \<Rightarrow> client \<Rightarrow> json \<Rightarrow> json \<Rightarrow> chat_history \<Rightarrow> call list
     \<Rightarrow> response \<times> chat_history \<times> call list" where
  "dispatch env orc query session_id h lg =
     (if last_recommended_books h \<noteq> []
      then
        (case is_book_followup env orc query (last_recommended_books h) lg of
           (Inl e, lg') \<Rightarrow> (Err500 e, h, lg')
         | (Inr matched_book, lg') \<Rightarrow>
             if truthy matched_book
             then
               (case get_book_details orc matched_book query lg' of
                  (Inl e, lg'') \<Rightarrow> (Err500 e, h, lg'')
                | (Inr detailed_response, lg'') \<Rightarrow>
                    (Ok200 detailed_response None session_id,
                     append_message ''assistant'' detailed_response h, lg''))
             else criteria_branch env orc query session_id h lg')
      else criteria_branch env orc query session_id h lg)"

text \<open>
  Lines 333 to 348 and the \<^verbatim>\<open>except\<close> of lines 404 to 406. \<open>req\<close> is what
  \<^verbatim>\<open>request.get_json()\<close> does: it raises or returns the parsed body.
\<close>

definition chatbot ::
  "env \<Rightarrow> client \<Rightarrow> exn + json \<Rightarrow> chat_histories \<Rightarrow> call list
     \<Rightarrow> response \<times> chat_histories \<times> call list" where
  "chatbot env orc req store lg =
     (case req of Inl e \<Rightarrow> (Err500 e, store, lg) | Inr data \<Rightarrow>
      case py_get data ''query'' JNull of Inl e \<Rightarrow> (Err500 e, store, lg) | Inr query \<Rightarrow>
      case py_get data ''session_id'' (JStr ''default'') of
        Inl e \<Rightarrow> (Err500 e, store, lg) | Inr session_id \<Rightarrow>
      if \<not> truthy query then (Err400 ''No query provided'', store, lg) else
      case hash_key session_id of Inl e \<Rightarrow> (Err500 e, store, lg) | Inr k \<Rightarrow>
        (let store1 = (if store k = None then store(k \<mapsto> new_history) else store);
             h = history_of store1 k
         in case validate_str env query of
              None \<Rightarrow> (Err500 ValidationError, store1, lg)
            | Some text \<Rightarrow>
                (case dispatch env orc query session_id (append_message ''user'' text h) lg of
                   (resp, h', lg') \<Rightarrow> (resp, store1(k \<mapsto> h'), lg'))))"

subsection \<open>Reading a request and its log\<close>

text \<open>The session key and the query of a request, when it has them.\<close>

definition request_key :: "exn + json \<Rightarrow> session_key option" where
  "request_key req =
     (case req of Inl e \<Rightarrow> None | Inr data \<Rightarrow>
      case py_get data ''session_id'' (JStr ''default'') of Inl e \<Rightarrow> None | Inr session_id \<Rightarrow>
      case hash_key session_id of Inl e \<Rightarrow> None | Inr k \<Rightarrow> Some k)"

definition request_query :: "exn + json \<Rightarrow> json option" where
  "request_query req =
     (case req of Inl e \<Rightarrow> None | Inr data \<Rightarrow>
      case py_get data ''query'' JNull of Inl e \<Rightarrow> None | Inr query \<Rightarrow> Some query)"

text \<open>
  What the log says about the three guards: the follow-up on a book matched (the reply
  parsed to a truthy value), the follow-up with criteria matched (the reply was \<^verbatim>\<open>true\<close>),
  the query was classified off-topic (the reply was not \<^verbatim>\<open>true\<close>).
\<close>

definition book_guard_fired :: "env \<Rightarrow> call list \<Rightarrow> bool" where
  "book_guard_fired env new =
     list_ex (\<lambda>(s, m, r). s = IsBookFollowup
        \<and> (case r of Raises e \<Rightarrow> False | Content c \<Rightarrow> truthy (parse_followup env c))) new"

definition criteria_guard_fired :: "call list \<Rightarrow> bool" where
  "criteria_guard_fired new =
     list_ex (\<lambda>(s, m, r). s = IsCriteriaFollowup
        \<and> (case r of Raises e \<Rightarrow> False | Content c \<Rightarrow> lower (strip c) = ''true'')) new"

definition classified_off_topic :: "call list \<Rightarrow> bool" where
  "classified_off_topic new =
     list_ex (\<lambda>(s, m, r). s = AnalyzeQuery
        \<and> (case r of Raises e \<Rightarrow> False | Content c \<Rightarrow> lower (strip c) \<noteq> ''true'')) new"

text \<open>
  The topic classification answered \<^verbatim>\<open>true\<close>; and the call made by a function raised.
\<close>

definition classified_on_topic :: "call list \<Rightarrow> bool" where
  "classified_on_topic new =
     list_ex (\<lambda>(s, m, r). s = AnalyzeQuery
        \<and> (case r of Raises e \<Rightarrow> False | Content c \<Rightarrow> lower (strip c) = ''true'')) new"

definition site_raised :: "site \<Rightarrow> call list \<Rightarrow> bool" where
  "site_raised s new =
     list_ex (\<lambda>(s', m, r). s' = s \<and> (case r of Raises e \<Rightarrow> True | Content c \<Rightarrow> False)) new"

text \<open>
  A request reaches the chain when it has a truthy query, a hashable session key and a
  query that \<^verbatim>\<open>Message\<close> accepts; \<open>session_before\<close> is the history of its session when
  the request arrives.
\<close>

definition reaches_dispatch :: "env \<Rightarrow> exn + json \<Rightarrow> bool" where
  "reaches_dispatch env req =
     (case request_key req of None \<Rightarrow> False | Some k \<Rightarrow>
      case request_query req of None \<Rightarrow> False | Some q \<Rightarrow>
        truthy q \<and> validate_str env q \<noteq> None)"

definition session_before :: "chat_histories \<Rightarrow> exn + json \<Rightarrow> chat_history" where
  "session_before store req =
     (case request_key req of None \<Rightarrow> new_history | Some k \<Rightarrow> history_of store k)"

text \<open>
  The place of each call in the chain, and the order of a log: the calls are in the order of
  the chain, and each is made at most once but for \<^verbatim>\<open>fetch_real_links\<close>, which is called
  once for every recommended book.
\<close>

fun stage :: "site \<Rightarrow> nat" where
  "stage IsBookFollowup = 0"
| "stage GetBookDetails = 1"
| "stage IsCriteriaFollowup = 2"
| "stage AnalyzeQuery = 3"
| "stage GenerateResponse = 4"
| "stage FetchRealLinks = 5"

definition chain_order :: "site list \<Rightarrow> bool" where
  "chain_order ss =
     (sorted (map stage ss) \<and> distinct (filter (\<lambda>s. s \<noteq> FetchRealLinks) ss))"

text \<open>The body without its \<^verbatim>\<open>query\<close> field.\<close>

definition without_query :: "(string \<times> json) list \<Rightarrow> (string \<times> json) list" where
  "without_query kvs = filter (\<lambda>p. fst p \<noteq> ''query'') kvs"

subsection \<open>Example inputs\<close>

text \<open>
  A library for the examples: \<^verbatim>\<open>json.loads\<close> on the three texts the examples use (it
  raises on the others), and validators that accept exactly the values that already have the
  declared types, on which pydantic returns them unchanged.
\<close>

fun strict_str :: "json \<Rightarrow> string option" where
  "strict_str (JStr s) = Some s"
| "strict_str _ = None"

fun strs_of :: "json list \<Rightarrow> string list option" where
  "strs_of [] = Some []"
| "strs_of (JStr s # xs) = (case strs_of xs of None \<Rightarrow> None | Some ss \<Rightarrow> Some (s # ss))"
| "strs_of (_ # xs) = None"

fun links_of :: "(string \<times> json) list \<Rightarrow> (string \<times> string) list option" where
  "links_of [] = Some []"
| "links_of ((k, JStr s) # xs) =
     (case links_of xs of None \<Rightarrow> None | Some ss \<Rightarrow> Some ((k, s) # ss))"
| "links_of (_ # xs) = None"

definition strict_book :: "json \<Rightarrow> book option" where
  "strict_book b =
     (case (getitem b ''title'', getitem b ''author'', getitem b ''price'',
            getitem b ''summary'', getitem b ''purchase_links'') of
        (Inr (JStr t), Inr (JArr as), Inr (JNum p), Inr (JStr s), Inr (JObj ls)) \<Rightarrow>
          (case (strs_of as, links_of ls) of
             (Some authors, Some links) \<Rightarrow>
               Some \<lparr>title = t, author = authors, price = p, summary = s,
                     purchase_links = links\<rparr>
           | _ \<Rightarrow> None)
      | _ \<Rightarrow> None)"

definition one_book_text :: string where
  \<open>one_book_text = ''{"books": [{"title": "Dune", "author": "Frank Herbert", "price": 9.99, "summary": "Sand", "purchase_links": {}}]}''\<close>

definition one_book_json :: json where
  "one_book_json = JObj [(''books'', JArr [JObj
     [(''title'', JStr ''Dune''), (''author'', JStr ''Frank Herbert''),
      (''price'', JNum (999 / 100)), (''summary'', JStr ''Sand''),
      (''purchase_links'', JObj [])]])]"

definition dune_text :: string where
  \<open>dune_text = ''{"title": "Dune", "author": ["Frank Herbert"], "summary": "Sand"}''\<close>

definition dune_json :: json where
  "dune_json = JObj [(''title'', JStr ''Dune''), (''author'', JArr [JStr ''Frank Herbert'']),
                     (''summary'', JStr ''Sand'')]"

text \<open>
  The request for a recommendation of science fiction in a new session, the entry of the
  one-book reply, the entry as the loop leaves it, and the book it validates to.
\<close>

definition sci_fi_msgs :: "chat_msg list" where
  "sci_fi_msgs = [(''system'', RecommendSystem None), (''user'', Val (JStr ''sci-fi''))]"

definition dune_entry :: json where
  "dune_entry = JObj
     [(''title'', JStr ''Dune''), (''author'', JStr ''Frank Herbert''),
      (''price'', JNum (999 / 100)), (''summary'', JStr ''Sand''),
      (''purchase_links'', JObj [])]"

definition dune_processed :: json where
  "dune_processed = JObj
     [(''title'', JStr ''Dune''), (''author'', JArr [JStr ''Frank Herbert'']),
      (''price'', JNum (999 / 100)), (''summary'', JStr ''Sand''),
      (''purchase_links'', JObj [(''amazon'', JStr ''https://www.amazon.it/s?k=dune''),
          (''lafeltrinelli'', JStr ''https://www.lafeltrinelli.it/search?q=dune'')])]"

definition dune_book :: book where
  "dune_book = \<lparr>title = ''Dune'', author = [''Frank Herbert''], price = 999 / 100, summary = ''Sand'',
         purchase_links = [(''amazon'', ''https://www.amazon.it/s?k=dune''),
                           (''lafeltrinelli'', ''https://www.lafeltrinelli.it/search?q=dune'')]\<rparr>"

definition example_env :: env where
  "example_env =
     \<lparr>json_loads = map_of [(one_book_text, one_book_json), (dune_text, dune_json),
                            (''42'', JNum 42)],
      py_float = (\<lambda>x. Inl TypeError),
      validate_book = strict_book,
      validate_str = strict_str\<rparr>"

text \<open>A service that is down, and one that gives every call the same text.\<close>

definition failing_client :: client where
  "failing_client n s msgs = Raises (OracleError ''timeout'')"

definition constant_client :: "string \<Rightarrow> client" where
  "constant_client c n s msgs = Content c"

text \<open>
  A service that answers the three classifications as told, describes a book in two words,
  recommends one book and knows no links.
\<close>

definition scripted_client :: "string \<Rightarrow> string \<Rightarrow> string \<Rightarrow> client" where
  "scripted_client book_reply criteria_reply topic_reply n s msgs =
     (case s of
        IsBookFollowup \<Rightarrow> Content book_reply
      | IsCriteriaFollowup \<Rightarrow> Content criteria_reply
      | AnalyzeQuery \<Rightarrow> Content topic_reply
      | GetBookDetails \<Rightarrow> Content ''A classic.''
      | GenerateResponse \<Rightarrow> Content one_book_text
      | FetchRealLinks \<Rightarrow> Content ''sorry'')"

definition hello_request :: "exn + json" where
  "hello_request = Inr (JObj [(''query'', JStr ''hello'')])"

definition italian_request :: "exn + json" where
  "italian_request = Inr (JObj [(''query'', JStr ''anything in Italian?'')])"

definition gatsby :: json where
  "gatsby = book_dict (hd default_books)"

text \<open>A store where the default session has had one recommendation.\<close>

definition classics_store :: chat_histories where
  "classics_store = Map.empty(KStr ''default'' \<mapsto>
     \<lparr>messages = [\<lparr>role = ''user'', content = ''classics''\<rparr>,
                  \<lparr>role = ''assistant'', content = fresh_caption\<rparr>],
      last_recommended_books = [gatsby],
      last_query = JStr ''classics''\<rparr>)"

text \<open>The runs of the handler that the examples below look at.\<close>

definition failing_run :: "response \<times> chat_histories \<times> call list" where
  "failing_run = chatbot example_env failing_client hello_request Map.empty []"

definition off_topic_run :: "response \<times> chat_histories \<times> call list" where
  "off_topic_run =
     chatbot example_env (scripted_client ''null'' ''false'' ''false'') hello_request Map.empty []"

definition fresh_run :: "response \<times> chat_histories \<times> call list" where
  "fresh_run =
     chatbot example_env (scripted_client ''null'' ''false'' ''true'') hello_request Map.empty []"

definition detail_run :: "response \<times> chat_histories \<times> call list" where
  "detail_run =
     chatbot example_env (scripted_client dune_text ''false'' ''false'') hello_request
       classics_store []"

definition criteria_run :: "response \<times> chat_histories \<times> call list" where
  "criteria_run =
     chatbot example_env (scripted_client ''null'' ''true'' ''false'') italian_request
       classics_store []"

definition rejected_run :: "response \<times> chat_histories \<times> call list" where
  "rejected_run =
     chatbot example_env (scripted_client ''null'' ''false'' ''false'') hello_request
       classics_store []"

definition missing_query_run :: "response \<times> chat_histories \<times> call list" where
  "missing_query_run = chatbot example_env failing_client (Inr (JObj [])) classics_store []"

section \<open>The calls a function makes\<close>

text \<open>
  Every function extends the log it is given; the lemmas of this section say by which calls,
  and relate the result to the replies.
\<close>

lemma create_eq:
  "create orc s msgs lg = (orc (length lg) s msgs, lg @ [(s, msgs, orc (length lg) s msgs)])"
  by (simp add: create_def Let_def)

lemma fetch_real_links_log:
  assumes "fetch_real_links env orc t a lg = (res, lg')"
  shows "\<exists>m r. lg' = lg @ [(FetchRealLinks, m, r)]"
  using assms
  by (auto simp: fetch_real_links_def create_def Let_def split: reply.splits option.splits if_splits)

lemma process_book_log:
  assumes "process_book env orc b lg = (res, lg')"
  shows "\<exists>new. lg' = lg @ new \<and> fst ` set new \<subseteq> {FetchRealLinks}"
proof (cases "\<exists>b1 t a a0. check_book env b = Inr b1 \<and> getitem b1 ''title'' = Inr t \<and> getitem b1 ''author'' = Inr a \<and> first_author a = Inr a0")
  case True
  then obtain b1 t a a0 where h: "check_book env b = Inr b1" "getitem b1 ''title'' = Inr t"
    "getitem b1 ''author'' = Inr a" "first_author a = Inr a0" by blast
  obtain r l where f: "fetch_real_links env orc t a0 lg = (r, l)" by (cases "fetch_real_links env orc t a0 lg")
  from fetch_real_links_log[OF f] obtain m rr where "l = lg @ [(FetchRealLinks, m, rr)]" by blast
  moreover have "lg' = l" using assms h f by (auto simp: process_book_def split: sum.splits)
  ultimately show ?thesis by auto
next
  case False
  then have "lg' = lg" using assms
    by (auto simp: process_book_def split: sum.splits)
  then show ?thesis by auto
qed

lemma process_books_log:
  "process_books env orc bs processed lg = (res, lg') \<Longrightarrow>
   \<exists>new. lg' = lg @ new \<and> fst ` set new \<subseteq> {FetchRealLinks}"
proof (induction bs arbitrary: processed lg)
  case Nil
  then show ?case by auto
next
  case (Cons b bs)
  obtain r l where pb: "process_book env orc b lg = (r, l)" by (cases "process_book env orc b lg")
  from process_book_log[OF pb] obtain n1 where n1: "l = lg @ n1" "fst ` set n1 \<subseteq> {FetchRealLinks}" by blast
  show ?case
  proof (cases r)
    case (Inl e)
    then have "lg' = l" using Cons.prems pb by simp
    then show ?thesis using n1 by blast
  next
    case (Inr b')
    then have "process_books env orc bs (processed @ [b']) l = (res, lg')" using Cons.prems pb by simp
    from Cons.IH[OF this] obtain n2 where "lg' = l @ n2" "fst ` set n2 \<subseteq> {FetchRealLinks}" by blast
    then have "lg' = lg @ (n1 @ n2)" "fst ` set (n1 @ n2) \<subseteq> {FetchRealLinks}" using n1 by auto
    then show ?thesis by blast
  qed
qed

lemma process_books_length:
  "process_books env orc bs processed lg = (Inr ps, lg') \<Longrightarrow> length ps = length processed + length bs"
proof (induction bs arbitrary: processed lg)
  case Nil
  then show ?case by simp
next
  case (Cons b bs)
  then show ?case by (fastforce split: prod.splits sum.splits)
qed

lemma validate_books_length:
  "validate_books env bs = Some vs \<Longrightarrow> length vs = length bs"
  by (induction bs arbitrary: vs) (auto split: option.splits)

lemma reply_books_nonempty: "reply_books d = Inr bs \<Longrightarrow> bs \<noteq> []"
  by (cases d) (auto split: option.splits json.splits list.splits)

lemma length_default_books: "length default_books = 3"
  by (simp add: default_books_def)

lemma try_generate_cases:
  assumes "try_generate env orc msgs lg = (res, lg')"
  shows "\<exists>r rest. lg' = lg @ (GenerateResponse, msgs, r) # rest \<and> fst ` set rest \<subseteq> {FetchRealLinks}
      \<and> r = orc (length lg) GenerateResponse msgs
      \<and> (case r of Raises e \<Rightarrow> res = Inl e \<and> rest = []
          | Content c \<Rightarrow>
            (case json_loads env (strip c) of None \<Rightarrow> res = Inl JSONDecodeError \<and> rest = []
             | Some data \<Rightarrow>
               (case reply_books data of Inl e \<Rightarrow> res = Inl e \<and> rest = []
                | Inr bs \<Rightarrow> (\<forall>out. res = Inr out \<longrightarrow> length (books out) = length bs))))"
proof -
  define r where "r = orc (length lg) GenerateResponse msgs"
  define lg1 where "lg1 = lg @ [(GenerateResponse, msgs, r)]"
  have c: "create orc GenerateResponse msgs lg = (r, lg1)"
    by (simp add: create_eq r_def lg1_def)
  show ?thesis
  proof (cases r)
    case (Raises e)
    then show ?thesis using assms c by (auto simp: try_generate_def lg1_def r_def)
  next
    case (Content cc)
    show ?thesis
    proof (cases "json_loads env (strip cc)")
      case None
      then show ?thesis using assms c Content by (auto simp: try_generate_def lg1_def r_def)
    next
      case (Some data)
      show ?thesis
      proof (cases "reply_books data")
        case (Inl e)
        then show ?thesis using assms c Content Some by (auto simp: try_generate_def lg1_def r_def)
      next
        case (Inr bs)
        obtain pr lg2 where pb: "process_books env orc bs [] lg1 = (pr, lg2)"
          by (cases "process_books env orc bs [] lg1")
        from process_books_log[OF pb] obtain rest where rest: "lg2 = lg1 @ rest" "fst ` set rest \<subseteq> {FetchRealLinks}" by blast
        have lg': "lg' = lg2" using assms c Content Some Inr pb
          by (auto simp: try_generate_def split: sum.splits option.splits)
        have len: "length (books out) = length bs" if "res = Inr out" for out
          using that assms c Content Some Inr pb process_books_length[of env orc bs "[]" lg1]
          by (auto simp: try_generate_def split: sum.splits option.splits dest!: validate_books_length)
        show ?thesis using lg' rest len Content Some Inr
          by (auto simp: lg1_def r_def)
      qed
    qed
  qed
qed

lemma generate_response_result:
  assumes "generate_response env orc query chat_hist criteria lg = (out, lg')"
  shows "books out \<noteq> []
       \<and> (\<exists>m r rest. lg' = lg @ (GenerateResponse, m, r) # rest
            \<and> fst ` set rest \<subseteq> {FetchRealLinks}
            \<and> (case r of
                  Raises e \<Rightarrow> books out = default_books
                | Content c \<Rightarrow>
                    (case json_loads env (strip c) of
                       None \<Rightarrow> books out = default_books
                     | Some data \<Rightarrow>
                         (case reply_books data of
                            Inl e \<Rightarrow> books out = default_books
                          | Inr bs \<Rightarrow> books out = default_books
                                       \<or> length (books out) = length bs))))"
proof -
  define msgs where "msgs = [(''system'', recommend_system criteria)]
     @ history_msgs (last_n 5 chat_hist) @ [(''user'', Val query)]"
  obtain res l where t: "try_generate env orc msgs lg = (res, l)"
    by (cases "try_generate env orc msgs lg")
  have lg': "lg' = l" and out: "out = (case res of Inl e \<Rightarrow> \<lparr>books = default_books\<rparr> | Inr v \<Rightarrow> v)"
    using assms t by (auto simp: generate_response_def msgs_def split: sum.splits)
  from try_generate_cases[OF t] obtain r rest where
    shape: "l = lg @ (GenerateResponse, msgs, r) # rest" "fst ` set rest \<subseteq> {FetchRealLinks}"
    and cases: "(case r of Raises e \<Rightarrow> res = Inl e \<and> rest = []
          | Content c \<Rightarrow>
            (case json_loads env (strip c) of None \<Rightarrow> res = Inl JSONDecodeError \<and> rest = []
             | Some data \<Rightarrow>
               (case reply_books data of Inl e \<Rightarrow> res = Inl e \<and> rest = []
                | Inr bs \<Rightarrow> (\<forall>out. res = Inr out \<longrightarrow> length (books out) = length bs))))"
    by blast
  have main: "(case r of
                  Raises e \<Rightarrow> books out = default_books
                | Content c \<Rightarrow>
                    (case json_loads env (strip c) of
                       None \<Rightarrow> books out = default_books
                     | Some data \<Rightarrow>
                         (case reply_books data of
                            Inl e \<Rightarrow> books out = default_books
                          | Inr bs \<Rightarrow> books out = default_books
                                       \<or> length (books out) = length bs)))"
    using cases out by (cases res) (auto split: reply.splits option.splits sum.splits)
  have ne: "books out \<noteq> []"
  proof (cases res)
    case (Inl e)
    then show ?thesis using out by (simp add: default_books_def)
  next
    case (Inr v)
    then have "out = v" using out by simp
    with cases Inr show ?thesis
      by (auto split: reply.splits option.splits sum.splits dest: reply_books_nonempty)
  qed
  show ?thesis using ne shape main lg' by blast
qed

lemma generate_response_log:
  assumes "generate_response env orc query chat_hist criteria lg = (out, lg')"
  shows "\<exists>new. lg' = lg @ new \<and> fst ` set new \<subseteq> {GenerateResponse, FetchRealLinks}"
proof -
  from generate_response_result[OF assms] obtain m r rest where
    "lg' = lg @ (GenerateResponse, m, r) # rest" "fst ` set rest \<subseteq> {FetchRealLinks}" by blast
  then have "lg' = lg @ ((GenerateResponse, m, r) # rest)"
    "fst ` set ((GenerateResponse, m, r) # rest) \<subseteq> {GenerateResponse, FetchRealLinks}" by auto
  then show ?thesis by blast
qed

lemma fresh_branch_cases:
  assumes "fresh_branch env orc query sid h lg = (resp, h', lg')"
  obtains out new where
    "generate_response env orc query (messages h) JNull lg = (out, lg')"
    "lg' = lg @ new" "fst ` set new \<subseteq> {GenerateResponse, FetchRealLinks}"
    "resp = Ok200 fresh_caption (Some (map book_dict (books out))) sid"
    "h' = append_message ''assistant'' fresh_caption
            (h\<lparr>last_recommended_books := map book_dict (books out), last_query := query\<rparr>)"
proof -
  obtain out l where g: "generate_response env orc query (messages h) JNull lg = (out, l)"
    by (cases "generate_response env orc query (messages h) JNull lg")
  from generate_response_log[OF g] obtain new where n: "l = lg @ new"
    "fst ` set new \<subseteq> {GenerateResponse, FetchRealLinks}" by blast
  have "lg' = l" "resp = Ok200 fresh_caption (Some (map book_dict (books out))) sid"
    "h' = append_message ''assistant'' fresh_caption
            (h\<lparr>last_recommended_books := map book_dict (books out), last_query := query\<rparr>)"
    using assms g by (auto simp: fresh_branch_def Let_def)
  then show ?thesis using that g n by blast
qed

lemma topic_branch_cases:
  assumes "topic_branch env orc query sid h lg = (resp, h', lg')"
  obtains (raised) m e where "lg' = lg @ [(AnalyzeQuery, m, Raises e)]" "resp = Err500 e" "h' = h"
  | (off_topic) m c where "lg' = lg @ [(AnalyzeQuery, m, Content c)]" "lower (strip c) \<noteq> ''true''"
      "resp = Ok200 rejection_text None sid" "h' = append_message ''assistant'' rejection_text h"
  | (on_topic) m c where "lower (strip c) = ''true''"
      "fresh_branch env orc query sid h (lg @ [(AnalyzeQuery, m, Content c)]) = (resp, h', lg')"
proof -
  define m where "m = [(''system'', TopicSystem)] @ history_msgs (last_n 3 (messages h)) @ [(''user'', Val query)]"
  define r where "r = orc (length lg) AnalyzeQuery m"
  show ?thesis
  proof (cases r)
    case (Raises e)
    then have "lg' = lg @ [(AnalyzeQuery, m, Raises e)]" "resp = Err500 e" "h' = h"
      using assms by (auto simp: topic_branch_def analyze_query_def create_eq Let_def m_def r_def)
    then show ?thesis using raised by blast
  next
    case (Content c)
    show ?thesis
    proof (cases "lower (strip c) = ''true''")
      case True
      then have "fresh_branch env orc query sid h (lg @ [(AnalyzeQuery, m, Content c)]) = (resp, h', lg')"
        using assms Content by (auto simp: topic_branch_def analyze_query_def create_eq Let_def m_def r_def)
      then show ?thesis using on_topic True by blast
    next
      case False
      then have "lg' = lg @ [(AnalyzeQuery, m, Content c)]"
      "resp = Ok200 rejection_text None sid" "h' = append_message ''assistant'' rejection_text h"
        using assms Content by (auto simp: topic_branch_def analyze_query_def create_eq Let_def m_def r_def)
      then show ?thesis using off_topic False by blast
    qed
  qed
qed

lemma criteria_branch_cases:
  assumes "criteria_branch env orc query sid h lg = (resp, h', lg')"
  obtains (no_last_query) "\<not> truthy (last_query h)"
      "topic_branch env orc query sid h lg = (resp, h', lg')"
  | (raised) m e where "truthy (last_query h)"
      "lg' = lg @ [(IsCriteriaFollowup, m, Raises e)]" "resp = Err500 e" "h' = h"
  | (followup) m c out new where "truthy (last_query h)" "lower (strip c) = ''true''"
      "generate_response env orc (last_query h) (messages h) query
         (lg @ [(IsCriteriaFollowup, m, Content c)]) = (out, lg')"
      "lg' = lg @ (IsCriteriaFollowup, m, Content c) # new"
      "fst ` set new \<subseteq> {GenerateResponse, FetchRealLinks}"
      "resp = Ok200 criteria_caption (Some (map book_dict (books out))) sid"
      "h' = append_message ''assistant'' criteria_caption
              (h\<lparr>last_recommended_books := map book_dict (books out)\<rparr>)"
  | (no_followup) m c where "truthy (last_query h)" "lower (strip c) \<noteq> ''true''"
      "topic_branch env orc query sid h (lg @ [(IsCriteriaFollowup, m, Content c)]) = (resp, h', lg')"
proof (cases "truthy (last_query h)")
  case False
  then show ?thesis using assms no_last_query by (simp add: criteria_branch_def)
next
  case True
  define m where "m = [(''system'', CriteriaSystem), (''user'', CriteriaUser (last_query h) query)]"
  define r where "r = orc (length lg) IsCriteriaFollowup m"
  show ?thesis
  proof (cases r)
    case (Raises e)
    then have "lg' = lg @ [(IsCriteriaFollowup, m, Raises e)]" "resp = Err500 e" "h' = h"
      using assms True
      by (auto simp: criteria_branch_def is_criteria_followup_def create_eq Let_def m_def r_def)
    then show ?thesis using raised True by blast
  next
    case (Content c)
    define lg1 where "lg1 = lg @ [(IsCriteriaFollowup, m, Content c)]"
    have icf: "is_criteria_followup orc query (last_query h) lg = (Inr (lower (strip c) = ''true''), lg1)"
      using Content by (simp add: is_criteria_followup_def create_eq Let_def m_def r_def lg1_def)
    show ?thesis
    proof (cases "lower (strip c) = ''true''")
      case False
      then have "topic_branch env orc query sid h lg1 = (resp, h', lg')"
        using assms True icf by (simp add: criteria_branch_def)
      then show ?thesis using no_followup True False unfolding lg1_def by blast
    next
      case t: True
      obtain out l where g: "generate_response env orc (last_query h) (messages h) query lg1 = (out, l)"
        by (cases "generate_response env orc (last_query h) (messages h) query lg1")
      from generate_response_log[OF g] obtain new where n: "l = lg1 @ new"
        "fst ` set new \<subseteq> {GenerateResponse, FetchRealLinks}" by blast
      have "lg' = l" "resp = Ok200 criteria_caption (Some (map book_dict (books out))) sid"
        "h' = append_message ''assistant'' criteria_caption
              (h\<lparr>last_recommended_books := map book_dict (books out)\<rparr>)"
        using assms True icf t g by (auto simp: criteria_branch_def Let_def)
      then show ?thesis using followup[OF True t, of m out new] g n unfolding lg1_def by simp
    qed
  qed
qed

section \<open>The order of the calls\<close>

lemma chain_order_links: "set ss \<subseteq> {FetchRealLinks} \<Longrightarrow> chain_order ss"
  by (induction ss) (auto simp: chain_order_def)

lemma chain_order_Cons:
  assumes "x \<noteq> FetchRealLinks" and "\<forall>s\<in>set ss. stage x < stage s" and "chain_order ss"
  shows "chain_order (x # ss)"
proof -
  have "x \<notin> set ss" using assms(2) by auto
  then show ?thesis using assms by (auto simp: chain_order_def less_imp_le)
qed

lemma book_guard_site: "book_guard_fired env new \<Longrightarrow> IsBookFollowup \<in> fst ` set new"
  by (force simp: book_guard_fired_def list_ex_iff)

lemma criteria_guard_site: "criteria_guard_fired new \<Longrightarrow> IsCriteriaFollowup \<in> fst ` set new"
  by (force simp: criteria_guard_fired_def list_ex_iff)

lemma off_topic_site: "classified_off_topic new \<Longrightarrow> AnalyzeQuery \<in> fst ` set new"
  by (force simp: classified_off_topic_def list_ex_iff)

lemma prepend_call:
  assumes "lg' = (lg @ [(x, m, r)]) @ new" and "fst ` set new \<subseteq> S"
    and "chain_order (map fst new)" and "x \<noteq> FetchRealLinks" and "\<forall>s\<in>S. stage x < stage s"
  shows "\<exists>new'. lg' = lg @ new' \<and> fst ` set new' \<subseteq> insert x S \<and> chain_order (map fst new')"
proof -
  have "\<forall>s\<in>set (map fst new). stage x < stage s" using assms(2,5) by auto
  then have "chain_order (map fst ((x, m, r) # new))"
    using assms(3,4) by (simp add: chain_order_Cons)
  moreover have "fst ` set ((x, m, r) # new) \<subseteq> insert x S" using assms(2) by auto
  moreover have "lg' = lg @ ((x, m, r) # new)" using assms(1) by simp
  ultimately show ?thesis by blast
qed

lemma generate_response_shape:
  assumes "generate_response env orc query chat_hist criteria lg = (out, lg')"
  shows "\<exists>new. lg' = lg @ new \<and> fst ` set new \<subseteq> {GenerateResponse, FetchRealLinks}
           \<and> chain_order (map fst new)"
proof -
  from generate_response_result[OF assms] obtain m r rest where
    r: "lg' = lg @ (GenerateResponse, m, r) # rest" "fst ` set rest \<subseteq> {FetchRealLinks}" by blast
  have "chain_order (map fst rest)" using r(2) by (intro chain_order_links) auto
  with r show ?thesis
    using prepend_call[of lg' lg GenerateResponse m r rest "{FetchRealLinks}"] by simp
qed

lemma fresh_branch_order:
  assumes "fresh_branch env orc query sid h lg = (resp, h', lg')"
  shows "\<exists>new. lg' = lg @ new \<and> fst ` set new \<subseteq> {GenerateResponse, FetchRealLinks}
           \<and> chain_order (map fst new)"
  using assms
proof (cases rule: fresh_branch_cases)
  case (1 out new)
  from generate_response_shape[OF 1(1)] show ?thesis .
qed

lemma topic_branch_order:
  assumes "topic_branch env orc query sid h lg = (resp, h', lg')"
  shows "\<exists>new. lg' = lg @ new
           \<and> fst ` set new \<subseteq> {AnalyzeQuery, GenerateResponse, FetchRealLinks}
           \<and> chain_order (map fst new)"
  using assms
proof (cases rule: topic_branch_cases)
  case (raised m e)
  then show ?thesis by (auto simp: chain_order_def)
next
  case (off_topic m c)
  then show ?thesis by (auto simp: chain_order_def)
next
  case (on_topic m c)
  from fresh_branch_order[OF on_topic(2)] obtain new where
    "lg' = (lg @ [(AnalyzeQuery, m, Content c)]) @ new"
    "fst ` set new \<subseteq> {GenerateResponse, FetchRealLinks}" "chain_order (map fst new)" by blast
  from prepend_call[OF this] show ?thesis by simp
qed

lemma criteria_branch_order:
  assumes "criteria_branch env orc query sid h lg = (resp, h', lg')"
  shows "\<exists>new. lg' = lg @ new
           \<and> fst ` set new \<subseteq> {IsCriteriaFollowup, AnalyzeQuery, GenerateResponse, FetchRealLinks}
           \<and> chain_order (map fst new)"
  using assms
proof (cases rule: criteria_branch_cases)
  case no_last_query
  from topic_branch_order[OF no_last_query(2)] show ?thesis by blast
next
  case (raised m e)
  then show ?thesis by (auto simp: chain_order_def)
next
  case (followup m c out new)
  from generate_response_shape[OF followup(3)] obtain new2 where
    "lg' = (lg @ [(IsCriteriaFollowup, m, Content c)]) @ new2"
    "fst ` set new2 \<subseteq> {GenerateResponse, FetchRealLinks}" "chain_order (map fst new2)" by blast
  from prepend_call[OF this] show ?thesis by auto
next
  case (no_followup m c)
  from topic_branch_order[OF no_followup(3)] obtain new2 where
    "lg' = (lg @ [(IsCriteriaFollowup, m, Content c)]) @ new2"
    "fst ` set new2 \<subseteq> {AnalyzeQuery, GenerateResponse, FetchRealLinks}"
    "chain_order (map fst new2)" by blast
  from prepend_call[OF this] show ?thesis by simp
qed

lemma get_book_details_cases:
  assumes "get_book_details orc b query lg = (res, lg')"
  obtains (no_call) e where "res = Inl e" "lg' = lg"
  | (raised) m e where "res = Inl e" "lg' = lg @ [(GetBookDetails, m, Raises e)]"
  | (answered) m c where "res = Inr (strip c)" "lg' = lg @ [(GetBookDetails, m, Content c)]"
proof -
  have "(\<exists>e. res = Inl e \<and> lg' = lg)
      \<or> (\<exists>m e. res = Inl e \<and> lg' = lg @ [(GetBookDetails, m, Raises e)])
      \<or> (\<exists>m c. res = Inr (strip c) \<and> lg' = lg @ [(GetBookDetails, m, Content c)])"
    using assms
    by (auto simp: get_book_details_def create_eq split: sum.splits reply.splits) metis
  then show ?thesis using no_call raised answered by blast
qed

lemma dispatch_cases:
  assumes "dispatch env orc query sid h lg = (resp, h', lg')"
  obtains (no_books) "last_recommended_books h = []"
      "criteria_branch env orc query sid h lg = (resp, h', lg')"
  | (raised) m e where "last_recommended_books h \<noteq> []"
      "lg' = lg @ [(IsBookFollowup, m, Raises e)]" "resp = Err500 e" "h' = h"
  | (matched_failed) m c e new where "last_recommended_books h \<noteq> []"
      "truthy (parse_followup env c)"
      "lg' = lg @ (IsBookFollowup, m, Content c) # new"
      "fst ` set new \<subseteq> {GetBookDetails}" "length new \<le> 1"
      "\<forall>x\<in>set new. \<exists>m' e'. x = (GetBookDetails, m', Raises e') \<and> e' = e"
      "resp = Err500 e" "h' = h"
  | (matched) m c m' d where "last_recommended_books h \<noteq> []"
      "truthy (parse_followup env c)"
      "lg' = lg @ [(IsBookFollowup, m, Content c), (GetBookDetails, m', Content d)]"
      "resp = Ok200 (strip d) None sid" "h' = append_message ''assistant'' (strip d) h"
  | (not_matched) m c where "last_recommended_books h \<noteq> []"
      "\<not> truthy (parse_followup env c)"
      "criteria_branch env orc query sid h (lg @ [(IsBookFollowup, m, Content c)]) = (resp, h', lg')"
proof (cases "last_recommended_books h = []")
  case True
  then show ?thesis using assms no_books by (simp add: dispatch_def)
next
  case False
  define m where "m = [(''system'', BookFollowupSystem),
                     (''user'', BookFollowupUser (last_recommended_books h) query)]"
  define r where "r = orc (length lg) IsBookFollowup m"
  show ?thesis
  proof (cases r)
    case (Raises e)
    then have "lg' = lg @ [(IsBookFollowup, m, Raises e)]" "resp = Err500 e" "h' = h"
      using assms False
      by (auto simp: dispatch_def is_book_followup_def create_eq Let_def m_def r_def)
    then show ?thesis using raised False by blast
  next
    case (Content c)
    define lg1 where "lg1 = lg @ [(IsBookFollowup, m, Content c)]"
    have ibf: "is_book_followup env orc query (last_recommended_books h) lg
                 = (Inr (parse_followup env c), lg1)"
      using Content False
      by (simp add: is_book_followup_def create_eq Let_def m_def r_def lg1_def)
    show ?thesis
    proof (cases "truthy (parse_followup env c)")
      case nt: False
      then have "criteria_branch env orc query sid h lg1 = (resp, h', lg')"
        using assms False ibf by (simp add: dispatch_def)
      then show ?thesis using not_matched False nt unfolding lg1_def by blast
    next
      case t: True
      obtain res l where g: "get_book_details orc (parse_followup env c) query lg1 = (res, l)"
        by (cases "get_book_details orc (parse_followup env c) query lg1")
      have l: "lg' = l" using assms False ibf t g by (auto simp: dispatch_def split: sum.splits)
      from g show ?thesis
      proof (cases rule: get_book_details_cases)
        case (no_call e)
        then have "resp = Err500 e" "h' = h" "lg' = lg @ (IsBookFollowup, m, Content c) # []"
          using assms False ibf t g by (auto simp: dispatch_def lg1_def)
        then show ?thesis using matched_failed[OF False t, of m "[]" e] by simp
      next
        case (raised m' e)
        then have "resp = Err500 e" "h' = h"
          "lg' = lg @ (IsBookFollowup, m, Content c) # [(GetBookDetails, m', Raises e)]"
          using assms False ibf t g by (auto simp: dispatch_def lg1_def)
        then show ?thesis
          using matched_failed[OF False t, of m "[(GetBookDetails, m', Raises e)]" e] by simp
      next
        case (answered m' d)
        then have "resp = Ok200 (strip d) None sid" "h' = append_message ''assistant'' (strip d) h"
          "lg' = lg @ [(IsBookFollowup, m, Content c), (GetBookDetails, m', Content d)]"
          using assms False ibf t g by (auto simp: dispatch_def lg1_def)
        then show ?thesis using matched[OF False t] by blast
      qed
    qed
  qed
qed

lemma dispatch_order:
  assumes "dispatch env orc query sid h lg = (resp, h', lg')"
  shows "\<exists>new. lg' = lg @ new \<and> chain_order (map fst new)"
  using assms
proof (cases rule: dispatch_cases)
  case no_books
  from criteria_branch_order[OF no_books(2)] show ?thesis by blast
next
  case (raised m e)
  then show ?thesis by (auto simp: chain_order_def)
next
  case (matched_failed m c e new)
  have "chain_order (map fst new)"
    using matched_failed(4,5) by (cases new) (auto simp: chain_order_def)
  with matched_failed(3,4) show ?thesis
    using prepend_call[of lg' lg IsBookFollowup m "Content c" new "{GetBookDetails}"] by auto
next
  case (matched m c m' d)
  then show ?thesis by (auto simp: chain_order_def)
next
  case (not_matched m c)
  from criteria_branch_order[OF not_matched(3)] obtain new2 where
    "lg' = (lg @ [(IsBookFollowup, m, Content c)]) @ new2"
    "fst ` set new2 \<subseteq> {IsCriteriaFollowup, AnalyzeQuery, GenerateResponse, FetchRealLinks}"
    "chain_order (map fst new2)" by blast
  from prepend_call[OF this] show ?thesis by auto
qed

section \<open>The handler, case by case\<close>

lemma chatbot_cases:
  assumes "chatbot env orc req store lg = (resp, store', lg')"
  obtains (rejected) "resp = Err400 ''No query provided''" "store' = store" "lg' = lg"
  | (failed_early) e where "resp = Err500 e" "lg' = lg" "store' = store"
  | (invalid_content) e k q where "resp = Err500 e" "lg' = lg"
      "request_key req = Some k" "request_query req = Some q" "validate_str env q = None"
      "store' = (if store k = None then store(k \<mapsto> new_history) else store)"
  | (dispatched) data k q sid ut h' where "req = Inr data"
      "py_get data ''session_id'' (JStr ''default'') = Inr sid"
      "request_key req = Some k" "request_query req = Some q" "truthy q"
      "validate_str env q = Some ut"
      "dispatch env orc q sid (append_message ''user'' ut (history_of store k)) lg
         = (resp, h', lg')"
      "store' = store(k \<mapsto> h')"
proof (cases req)
  case (Inl e)
  then show ?thesis using assms failed_early by (auto simp: chatbot_def)
next
  case (Inr data)
  show ?thesis
  proof (cases "py_get data ''query'' JNull")
    case (Inl e)
    then show ?thesis using assms Inr failed_early by (auto simp: chatbot_def)
  next
    case q: (Inr q)
    show ?thesis
    proof (cases "py_get data ''session_id'' (JStr ''default'')")
      case (Inl e)
      then show ?thesis using assms Inr q failed_early by (auto simp: chatbot_def)
    next
      case sid: (Inr sid)
      show ?thesis
      proof (cases "truthy q")
        case False
        then show ?thesis using assms Inr q sid rejected by (auto simp: chatbot_def)
      next
        case True
        show ?thesis
        proof (cases "hash_key sid")
          case (Inl e)
          then show ?thesis using assms Inr q sid True failed_early by (auto simp: chatbot_def)
        next
          case k: (Inr k)
          have rk: "request_key req = Some k" "request_query req = Some q"
            using Inr q sid k by (simp_all add: request_key_def request_query_def)
          define store1 where "store1 = (if store k = None then store(k \<mapsto> new_history) else store)"
          have h1: "history_of store1 k = history_of store k"
            by (auto simp: store1_def history_of_def)
          show ?thesis
          proof (cases "validate_str env q")
            case None
            then have "resp = Err500 ValidationError" "lg' = lg" "store' = store1"
              using assms Inr q sid True k
              by (auto simp: chatbot_def Let_def store1_def)
            then show ?thesis using invalid_content rk None unfolding store1_def by blast
          next
            case (Some ut)
            obtain r h' l where d: "dispatch env orc q sid
                (append_message ''user'' ut (history_of store k)) lg = (r, h', l)"
              by (cases "dispatch env orc q sid (append_message ''user'' ut (history_of store k)) lg")
            have "resp = r" "lg' = l" "store' = store1(k \<mapsto> h')"
              using assms Inr q sid True k Some d h1
              by (auto simp: chatbot_def Let_def store1_def)
            moreover have "store1(k \<mapsto> h') = store(k \<mapsto> h')"
              by (auto simp: store1_def)
            ultimately show ?thesis using dispatched[OF Inr sid rk True Some] d by simp
          qed
        qed
      qed
    qed
  qed
qed

subsection \<open>The response against the history\<close>

lemma fresh_branch_history:
  assumes "fresh_branch env orc query sid h lg = (resp, h', lg')"
  shows "\<exists>t b. resp = Ok200 t b sid \<and> messages h' = messages h @ [\<lparr>role = ''assistant'', content = t\<rparr>]"
  using assms by (cases rule: fresh_branch_cases) (simp add: append_message_def)

lemma topic_branch_history:
  assumes "topic_branch env orc query sid h lg = (resp, h', lg')"
  shows "(\<exists>e. resp = Err500 e \<and> h' = h)
       \<or> (\<exists>t b. resp = Ok200 t b sid \<and> messages h' = messages h @ [\<lparr>role = ''assistant'', content = t\<rparr>])"
  using assms
proof (cases rule: topic_branch_cases)
  case (on_topic m c)
  from fresh_branch_history[OF on_topic(2)] show ?thesis by blast
qed (simp_all add: append_message_def)

lemma criteria_branch_history:
  assumes "criteria_branch env orc query sid h lg = (resp, h', lg')"
  shows "(\<exists>e. resp = Err500 e \<and> h' = h)
       \<or> (\<exists>t b. resp = Ok200 t b sid \<and> messages h' = messages h @ [\<lparr>role = ''assistant'', content = t\<rparr>])"
  using assms
proof (cases rule: criteria_branch_cases)
  case no_last_query
  from topic_branch_history[OF no_last_query(2)] show ?thesis .
next
  case (no_followup m c)
  from topic_branch_history[OF no_followup(3)] show ?thesis .
qed (simp_all add: append_message_def)

lemma dispatch_history:
  assumes "dispatch env orc query sid h lg = (resp, h', lg')"
  shows "(\<exists>e. resp = Err500 e \<and> h' = h)
       \<or> (\<exists>t b. resp = Ok200 t b sid \<and> messages h' = messages h @ [\<lparr>role = ''assistant'', content = t\<rparr>])"
  using assms
proof (cases rule: dispatch_cases)
  case no_books
  from criteria_branch_history[OF no_books(2)] show ?thesis .
next
  case (not_matched m c)
  from criteria_branch_history[OF not_matched(3)] show ?thesis .
qed (simp_all add: append_message_def)

lemma history_of_upd [simp]: "history_of (store(k \<mapsto> h)) k = h"
  by (simp add: history_of_def)

lemma history_of_other: "k' \<noteq> k \<Longrightarrow> history_of (store(k \<mapsto> h)) k' = history_of store k'"
  by (simp add: history_of_def)

subsection \<open>A call that raises outside a \<^verbatim>\<open>try\<close>\<close>

lemma topic_branch_raise:
  assumes "topic_branch env orc query sid h lg = (resp, h', lg @ new)"
    and "(s, m, Raises e) \<in> set new" and "s \<noteq> GenerateResponse" and "s \<noteq> FetchRealLinks"
  shows "resp = Err500 e \<and> h' = h"
  using assms(1)
proof (cases rule: topic_branch_cases)
  case (raised m' e')
  then show ?thesis using assms(2) by auto
next
  case (off_topic m' c)
  then show ?thesis using assms(2) by auto
next
  case (on_topic m' c)
  from fresh_branch_order[OF on_topic(2)] obtain new2 where
    "lg @ new = (lg @ [(AnalyzeQuery, m', Content c)]) @ new2"
    "fst ` set new2 \<subseteq> {GenerateResponse, FetchRealLinks}" by blast
  then have "new = (AnalyzeQuery, m', Content c) # new2" by simp
  then show ?thesis using assms(2-4) \<open>fst ` set new2 \<subseteq> _\<close> by force
qed

lemma criteria_branch_raise:
  assumes "criteria_branch env orc query sid h lg = (resp, h', lg @ new)"
    and "(s, m, Raises e) \<in> set new" and "s \<noteq> GenerateResponse" and "s \<noteq> FetchRealLinks"
  shows "resp = Err500 e \<and> h' = h"
  using assms(1)
proof (cases rule: criteria_branch_cases)
  case no_last_query
  from topic_branch_raise[OF no_last_query(2) assms(2-4)] show ?thesis .
next
  case (raised m' e')
  then show ?thesis using assms(2) by auto
next
  case (followup m' c out new2)
  then have "new = (IsCriteriaFollowup, m', Content c) # new2" by simp
  then show ?thesis using assms(2-4) followup(5) by force
next
  case (no_followup m' c)
  from topic_branch_order[OF no_followup(3)] obtain new2 where
    n: "lg @ new = (lg @ [(IsCriteriaFollowup, m', Content c)]) @ new2" by blast
  then have new: "new = (IsCriteriaFollowup, m', Content c) # new2" by simp
  then have "(s, m, Raises e) \<in> set new2" using assms(2) by auto
  moreover have "topic_branch env orc query sid h (lg @ [(IsCriteriaFollowup, m', Content c)])
     = (resp, h', (lg @ [(IsCriteriaFollowup, m', Content c)]) @ new2)"
    using no_followup(3) n by simp
  ultimately show ?thesis using topic_branch_raise assms(3,4) by blast
qed

lemma dispatch_raise:
  assumes "dispatch env orc query sid h lg = (resp, h', lg @ new)"
    and "(s, m, Raises e) \<in> set new" and "s \<noteq> GenerateResponse" and "s \<noteq> FetchRealLinks"
  shows "resp = Err500 e \<and> h' = h"
  using assms(1)
proof (cases rule: dispatch_cases)
  case no_books
  from criteria_branch_raise[OF no_books(2) assms(2-4)] show ?thesis .
next
  case (raised m' e')
  then show ?thesis using assms(2) by auto
next
  case (matched_failed m' c e' new2)
  then have "new = (IsBookFollowup, m', Content c) # new2" by simp
  then have "(s, m, Raises e) \<in> set new2" using assms(2) by auto
  then show ?thesis using matched_failed(6,7,8) by auto
next
  case (matched m' c m'' d)
  then show ?thesis using assms(2) by auto
next
  case (not_matched m' c)
  from criteria_branch_order[OF not_matched(3)] obtain new2 where
    n: "lg @ new = (lg @ [(IsBookFollowup, m', Content c)]) @ new2" by blast
  then have new: "new = (IsBookFollowup, m', Content c) # new2" by simp
  then have "(s, m, Raises e) \<in> set new2" using assms(2) by auto
  moreover have "criteria_branch env orc query sid h (lg @ [(IsBookFollowup, m', Content c)])
     = (resp, h', (lg @ [(IsBookFollowup, m', Content c)]) @ new2)"
    using not_matched(3) n by simp
  ultimately show ?thesis using criteria_branch_raise assms(3,4) by blast
qed

subsection \<open>A query classified off-topic\<close>

lemma not_off_topic: "AnalyzeQuery \<notin> fst ` set new \<Longrightarrow> \<not> classified_off_topic new"
  using off_topic_site by blast

lemma off_topic_Cons:
  "classified_off_topic ((s, m, r) # new) =
     ((s = AnalyzeQuery \<and> (\<exists>c. r = Content c \<and> lower (strip c) \<noteq> ''true''))
      \<or> classified_off_topic new)"
  by (auto simp: classified_off_topic_def split: reply.splits)

lemma topic_branch_off:
  assumes "topic_branch env orc query sid h lg = (resp, h', lg @ new)"
    and "classified_off_topic new"
  shows "resp = Ok200 rejection_text None sid
       \<and> h' = append_message ''assistant'' rejection_text h
       \<and> fst ` set new \<subseteq> {AnalyzeQuery}"
  using assms(1)
proof (cases rule: topic_branch_cases)
  case (raised m' e')
  then show ?thesis using assms(2) by (auto simp: classified_off_topic_def)
next
  case (off_topic m' c)
  then show ?thesis by auto
next
  case (on_topic m' c)
  from fresh_branch_order[OF on_topic(2)] obtain new2 where
    "lg @ new = (lg @ [(AnalyzeQuery, m', Content c)]) @ new2"
    "fst ` set new2 \<subseteq> {GenerateResponse, FetchRealLinks}" by blast
  then have "new = (AnalyzeQuery, m', Content c) # new2" "\<not> classified_off_topic new2"
    by (auto intro!: not_off_topic)
  then show ?thesis using assms(2) on_topic(1) by (simp add: off_topic_Cons)
qed

lemma criteria_branch_off:
  assumes "criteria_branch env orc query sid h lg = (resp, h', lg @ new)"
    and "classified_off_topic new"
  shows "resp = Ok200 rejection_text None sid
       \<and> h' = append_message ''assistant'' rejection_text h
       \<and> fst ` set new \<subseteq> {IsCriteriaFollowup, AnalyzeQuery}"
  using assms(1)
proof (cases rule: criteria_branch_cases)
  case no_last_query
  from topic_branch_off[OF no_last_query(2) assms(2)] show ?thesis by auto
next
  case (raised m' e')
  then show ?thesis using assms(2) by (auto simp: classified_off_topic_def)
next
  case (followup m' c out new2)
  then have "new = (IsCriteriaFollowup, m', Content c) # new2" "\<not> classified_off_topic new2"
    by (auto intro!: not_off_topic)
  then show ?thesis using assms(2) by (simp add: off_topic_Cons)
next
  case (no_followup m' c)
  from topic_branch_order[OF no_followup(3)] obtain new2 where
    n: "lg @ new = (lg @ [(IsCriteriaFollowup, m', Content c)]) @ new2" by blast
  then have new: "new = (IsCriteriaFollowup, m', Content c) # new2" by simp
  then have "classified_off_topic new2" using assms(2) by (simp add: off_topic_Cons)
  moreover have "topic_branch env orc query sid h (lg @ [(IsCriteriaFollowup, m', Content c)])
     = (resp, h', (lg @ [(IsCriteriaFollowup, m', Content c)]) @ new2)"
    using no_followup(3) n by simp
  ultimately show ?thesis using topic_branch_off new by fastforce
qed

lemma dispatch_off:
  assumes "dispatch env orc query sid h lg = (resp, h', lg @ new)"
    and "classified_off_topic new"
  shows "resp = Ok200 rejection_text None sid
       \<and> h' = append_message ''assistant'' rejection_text h
       \<and> fst ` set new \<subseteq> {IsBookFollowup, IsCriteriaFollowup, AnalyzeQuery}"
  using assms(1)
proof (cases rule: dispatch_cases)
  case no_books
  from criteria_branch_off[OF no_books(2) assms(2)] show ?thesis by auto
next
  case (raised m' e')
  then show ?thesis using assms(2) by (auto simp: classified_off_topic_def)
next
  case (matched_failed m' c e' new2)
  then have "new = (IsBookFollowup, m', Content c) # new2" "\<not> classified_off_topic new2"
    by (auto intro!: not_off_topic)
  then show ?thesis using assms(2) by (simp add: off_topic_Cons)
next
  case (matched m' c m'' d)
  then show ?thesis using assms(2) by (auto simp: classified_off_topic_def)
next
  case (not_matched m' c)
  from criteria_branch_order[OF not_matched(3)] obtain new2 where
    n: "lg @ new = (lg @ [(IsBookFollowup, m', Content c)]) @ new2" by blast
  then have new: "new = (IsBookFollowup, m', Content c) # new2" by simp
  then have "classified_off_topic new2" using assms(2) by (simp add: off_topic_Cons)
  moreover have "criteria_branch env orc query sid h (lg @ [(IsBookFollowup, m', Content c)])
     = (resp, h', (lg @ [(IsBookFollowup, m', Content c)]) @ new2)"
    using not_matched(3) n by simp
  ultimately show ?thesis using criteria_branch_off new by fastforce
qed

subsection \<open>A follow-up that matched\<close>

lemma criteria_Cons:
  "criteria_guard_fired ((s, m, r) # new) =
     ((s = IsCriteriaFollowup \<and> (\<exists>c. r = Content c \<and> lower (strip c) = ''true''))
      \<or> criteria_guard_fired new)"
  by (auto simp: criteria_guard_fired_def split: reply.splits)

lemma book_Cons:
  "book_guard_fired env ((s, m, r) # new) =
     ((s = IsBookFollowup \<and> (\<exists>c. r = Content c \<and> truthy (parse_followup env c)))
      \<or> book_guard_fired env new)"
  by (auto simp: book_guard_fired_def split: reply.splits)

lemma not_criteria: "IsCriteriaFollowup \<notin> fst ` set new \<Longrightarrow> \<not> criteria_guard_fired new"
  using criteria_guard_site by blast

lemma not_book: "IsBookFollowup \<notin> fst ` set new \<Longrightarrow> \<not> book_guard_fired env new"
  using book_guard_site by blast

lemma criteria_branch_fired:
  assumes "criteria_branch env orc query sid h lg = (resp, h', lg @ new)"
    and "criteria_guard_fired new"
  shows "truthy (last_query h)
       \<and> (\<exists>m c out.
            generate_response env orc (last_query h) (messages h) query
              (lg @ [(IsCriteriaFollowup, m, Content c)]) = (out, lg @ new)
          \<and> resp = Ok200 criteria_caption (Some (map book_dict (books out))) sid
          \<and> h' = append_message ''assistant'' criteria_caption
                   (h\<lparr>last_recommended_books := map book_dict (books out)\<rparr>))
       \<and> fst ` set new \<subseteq> {IsCriteriaFollowup, GenerateResponse, FetchRealLinks}"
  using assms(1)
proof (cases rule: criteria_branch_cases)
  case no_last_query
  from topic_branch_order[OF no_last_query(2)] obtain new2 where
    "lg @ new = lg @ new2" "fst ` set new2 \<subseteq> {AnalyzeQuery, GenerateResponse, FetchRealLinks}"
    by blast
  then have "\<not> criteria_guard_fired new" by (auto intro!: not_criteria)
  then show ?thesis using assms(2) by simp
next
  case (raised m' e')
  then show ?thesis using assms(2) by (auto simp: criteria_guard_fired_def)
next
  case (followup m' c out new2)
  then have "new = (IsCriteriaFollowup, m', Content c) # new2" by simp
  then have "fst ` set new \<subseteq> {IsCriteriaFollowup, GenerateResponse, FetchRealLinks}"
    using followup(5) by auto
  then show ?thesis using followup by blast
next
  case (no_followup m' c)
  from topic_branch_order[OF no_followup(3)] obtain new2 where
    n: "lg @ new = (lg @ [(IsCriteriaFollowup, m', Content c)]) @ new2"
    "fst ` set new2 \<subseteq> {AnalyzeQuery, GenerateResponse, FetchRealLinks}" by blast
  then have "new = (IsCriteriaFollowup, m', Content c) # new2" "\<not> criteria_guard_fired new2"
    by (auto intro!: not_criteria)
  then show ?thesis using assms(2) no_followup(2) by (simp add: criteria_Cons)
qed

lemma dispatch_fired:
  assumes "dispatch env orc query sid h lg = (resp, h', lg @ new)"
    and "criteria_guard_fired new"
  shows "truthy (last_query h)
       \<and> (\<exists>pre m c out. fst ` set pre \<subseteq> {IsBookFollowup}
          \<and> generate_response env orc (last_query h) (messages h) query
              (lg @ pre @ [(IsCriteriaFollowup, m, Content c)]) = (out, lg @ new)
          \<and> resp = Ok200 criteria_caption (Some (map book_dict (books out))) sid
          \<and> h' = append_message ''assistant'' criteria_caption
                   (h\<lparr>last_recommended_books := map book_dict (books out)\<rparr>))
       \<and> fst ` set new \<subseteq> {IsBookFollowup, IsCriteriaFollowup, GenerateResponse, FetchRealLinks}"
  using assms(1)
proof (cases rule: dispatch_cases)
  case no_books
  from criteria_branch_fired[OF no_books(2) assms(2)] obtain m c out where
    f: "truthy (last_query h)"
    "generate_response env orc (last_query h) (messages h) query
              (lg @ [] @ [(IsCriteriaFollowup, m, Content c)]) = (out, lg @ new)"
    "resp = Ok200 criteria_caption (Some (map book_dict (books out))) sid"
    "h' = append_message ''assistant'' criteria_caption
                   (h\<lparr>last_recommended_books := map book_dict (books out)\<rparr>)"
    "fst ` set new \<subseteq> {IsCriteriaFollowup, GenerateResponse, FetchRealLinks}" by auto
  have "fst ` set ([] :: call list) \<subseteq> {IsBookFollowup}" by simp
  then show ?thesis using f by blast
next
  case (raised m' e')
  then show ?thesis using assms(2) by (auto simp: criteria_guard_fired_def)
next
  case (matched_failed m' c e' new2)
  then have "fst ` set new \<subseteq> {IsBookFollowup, GetBookDetails}" by auto
  then have "\<not> criteria_guard_fired new" by (auto intro!: not_criteria)
  then show ?thesis using assms(2) by simp
next
  case (matched m' c m'' d)
  then show ?thesis using assms(2) by (auto simp: criteria_guard_fired_def)
next
  case (not_matched m' c)
  from criteria_branch_order[OF not_matched(3)] obtain new2 where
    n: "lg @ new = (lg @ [(IsBookFollowup, m', Content c)]) @ new2" by blast
  then have new: "new = (IsBookFollowup, m', Content c) # new2" by simp
  then have "criteria_guard_fired new2" using assms(2) by (simp add: criteria_Cons)
  moreover have "criteria_branch env orc query sid h (lg @ [(IsBookFollowup, m', Content c)])
     = (resp, h', (lg @ [(IsBookFollowup, m', Content c)]) @ new2)"
    using not_matched(3) n by simp
  ultimately obtain m c' out where
    f: "truthy (last_query h)"
    "generate_response env orc (last_query h) (messages h) query
        ((lg @ [(IsBookFollowup, m', Content c)]) @ [(IsCriteriaFollowup, m, Content c')])
       = (out, (lg @ [(IsBookFollowup, m', Content c)]) @ new2)"
    "resp = Ok200 criteria_caption (Some (map book_dict (books out))) sid"
    "h' = append_message ''assistant'' criteria_caption
                   (h\<lparr>last_recommended_books := map book_dict (books out)\<rparr>)"
    "fst ` set new2 \<subseteq> {IsCriteriaFollowup, GenerateResponse, FetchRealLinks}"
    using criteria_branch_fired by blast
  have "fst ` set [(IsBookFollowup, m', Content c)] \<subseteq> {IsBookFollowup}" by simp
  moreover have "generate_response env orc (last_query h) (messages h) query
        (lg @ [(IsBookFollowup, m', Content c)] @ [(IsCriteriaFollowup, m, Content c')])
       = (out, lg @ new)" using f(2) n by simp
  moreover have "fst ` set new \<subseteq> {IsBookFollowup, IsCriteriaFollowup, GenerateResponse, FetchRealLinks}"
    using new f(5) by auto
  ultimately show ?thesis using f(1,3,4) by blast
qed

lemma dispatch_book_fired:
  assumes "dispatch env orc query sid h lg = (resp, h', lg @ new)"
    and "book_guard_fired env new"
  shows "fst ` set new \<subseteq> {IsBookFollowup, GetBookDetails}
       \<and> last_recommended_books h' = last_recommended_books h
       \<and> last_query h' = last_query h"
  using assms(1)
proof (cases rule: dispatch_cases)
  case no_books
  from criteria_branch_order[OF no_books(2)] obtain new2 where
    "lg @ new = lg @ new2"
    "fst ` set new2 \<subseteq> {IsCriteriaFollowup, AnalyzeQuery, GenerateResponse, FetchRealLinks}"
    by blast
  then have "\<not> book_guard_fired env new" by (auto intro!: not_book)
  then show ?thesis using assms(2) by simp
next
  case (raised m' e')
  then show ?thesis using assms(2) by (auto simp: book_guard_fired_def)
next
  case (matched_failed m' c e' new2)
  then show ?thesis by auto
next
  case (matched m' c m'' d)
  then show ?thesis by (auto simp: append_message_def)
next
  case (not_matched m' c)
  from criteria_branch_order[OF not_matched(3)] obtain new2 where
    n: "lg @ new = (lg @ [(IsBookFollowup, m', Content c)]) @ new2"
    "fst ` set new2 \<subseteq> {IsCriteriaFollowup, AnalyzeQuery, GenerateResponse, FetchRealLinks}"
    by blast
  then have "new = (IsBookFollowup, m', Content c) # new2" "\<not> book_guard_fired env new2"
    by (auto intro!: not_book)
  then show ?thesis using assms(2) not_matched(2) by (simp add: book_Cons)
qed

section \<open>The entries of a recommendation\<close>

lemma process_book_entry:
  assumes "process_book env orc b lg = (Inr p, lg')"
  shows "\<exists>b1 links. check_book env b = Inr b1 \<and> setitem b1 ''purchase_links'' links = Inr p"
  using assms
  by (auto simp: process_book_def split: sum.splits prod.splits)

lemma process_books_entries:
  "process_books env orc bs processed lg = (Inr ps, lg') \<Longrightarrow>
   \<exists>qs. ps = processed @ qs
      \<and> list_all2 (\<lambda>b p. \<exists>b1 links. check_book env b = Inr b1
                          \<and> setitem b1 ''purchase_links'' links = Inr p) bs qs"
proof (induction bs arbitrary: processed lg)
  case Nil
  then show ?case by simp
next
  case (Cons b bs)
  obtain r l where pb: "process_book env orc b lg = (r, l)" by (cases "process_book env orc b lg")
  show ?case
  proof (cases r)
    case (Inl e)
    then show ?thesis using Cons.prems pb by simp
  next
    case (Inr p)
    then have "process_books env orc bs (processed @ [p]) l = (Inr ps, lg')"
      using Cons.prems pb by simp
    from Cons.IH[OF this] obtain qs where qs: "ps = (processed @ [p]) @ qs"
      "list_all2 (\<lambda>b p. \<exists>b1 links. check_book env b = Inr b1
                          \<and> setitem b1 ''purchase_links'' links = Inr p) bs qs" by blast
    have "\<exists>b1 links. check_book env b = Inr b1 \<and> setitem b1 ''purchase_links'' links = Inr p"
      using process_book_entry pb Inr by blast
    then have "list_all2 (\<lambda>b p. \<exists>b1 links. check_book env b = Inr b1
                          \<and> setitem b1 ''purchase_links'' links = Inr p) (b # bs) (p # qs)"
      using qs(2) by simp
    moreover have "ps = processed @ (p # qs)" using qs(1) by simp
    ultimately show ?thesis by blast
  qed
qed

lemma process_books_fail:
  "process_books env orc bs processed lg = (Inl e, lg') \<Longrightarrow>
   \<exists>b\<in>set bs. \<exists>l0. process_book env orc b l0 = (Inl e, lg')"
proof (induction bs arbitrary: processed lg)
  case Nil
  then show ?case by simp
next
  case (Cons b bs)
  obtain r l where pb: "process_book env orc b lg = (r, l)" by (cases "process_book env orc b lg")
  show ?case
  proof (cases r)
    case (Inl e')
    then show ?thesis using Cons.prems pb by auto
  next
    case (Inr p)
    then have "process_books env orc bs (processed @ [p]) l = (Inl e, lg')"
      using Cons.prems pb by simp
    from Cons.IH[OF this] show ?thesis by auto
  qed
qed

lemma validate_books_entries:
  "validate_books env ps = Some vs \<Longrightarrow> list_all2 (\<lambda>p v. validate_book env p = Some v) ps vs"
  by (induction ps arbitrary: vs) (auto split: option.splits)

lemma validate_books_fail:
  "validate_books env ps = None \<Longrightarrow> \<exists>p\<in>set ps. validate_book env p = None"
  by (induction ps) (auto split: option.splits)

lemma generate_response_exact:
  assumes "generate_response env orc query chat_hist criteria lg = (out, lg')"
  shows "\<exists>m r rest.
           m = [(''system'', recommend_system criteria)] @ history_msgs (last_n 5 chat_hist)
               @ [(''user'', Val query)]
         \<and> r = orc (length lg) GenerateResponse m
         \<and> lg' = lg @ (GenerateResponse, m, r) # rest
         \<and> fst ` set rest \<subseteq> {FetchRealLinks}
         \<and> (case r of
               Raises e \<Rightarrow> books out = default_books \<and> rest = []
             | Content c \<Rightarrow>
                 (case json_loads env (strip c) of
                    None \<Rightarrow> books out = default_books \<and> rest = []
                  | Some data \<Rightarrow>
                      (case reply_books data of
                         Inl e \<Rightarrow> books out = default_books \<and> rest = []
                       | Inr bs \<Rightarrow>
                           (case process_books env orc bs [] (lg @ [(GenerateResponse, m, r)]) of
                              (Inl e, l) \<Rightarrow>
                                books out = default_books \<and> lg' = l
                              \<and> (\<exists>b\<in>set bs. \<exists>l0. process_book env orc b l0 = (Inl e, l))
                            | (Inr ps, l) \<Rightarrow>
                                lg' = l
                              \<and> list_all2 (\<lambda>b p. \<exists>b1 links. check_book env b = Inr b1
                                    \<and> setitem b1 ''purchase_links'' links = Inr p) bs ps
                              \<and> (case validate_books env ps of
                                    None \<Rightarrow> books out = default_books
                                      \<and> (\<exists>p\<in>set ps. validate_book env p = None)
                                  | Some vs \<Rightarrow> books out = vs
                                      \<and> list_all2 (\<lambda>p v. validate_book env p = Some v) ps vs)))))"
proof -
  define m where "m = [(''system'', recommend_system criteria)]
     @ history_msgs (last_n 5 chat_hist) @ [(''user'', Val query)]"
  define r where "r = orc (length lg) GenerateResponse m"
  define lg1 where "lg1 = lg @ [(GenerateResponse, m, r)]"
  obtain res l where t: "try_generate env orc m lg = (res, l)"
    by (cases "try_generate env orc m lg")
  have lg': "lg' = l" and out: "out = (case res of Inl e \<Rightarrow> \<lparr>books = default_books\<rparr> | Inr v \<Rightarrow> v)"
    using assms t by (auto simp: generate_response_def m_def split: sum.splits)
  have c: "create orc GenerateResponse m lg = (r, lg1)"
    by (simp add: create_eq r_def lg1_def)
  have main: "\<exists>rest. l = lg @ (GenerateResponse, m, r) # rest
         \<and> fst ` set rest \<subseteq> {FetchRealLinks}
         \<and> (case r of
               Raises e \<Rightarrow> books out = default_books \<and> rest = []
             | Content c \<Rightarrow>
                 (case json_loads env (strip c) of
                    None \<Rightarrow> books out = default_books \<and> rest = []
                  | Some data \<Rightarrow>
                      (case reply_books data of
                         Inl e \<Rightarrow> books out = default_books \<and> rest = []
                       | Inr bs \<Rightarrow>
                           (case process_books env orc bs [] lg1 of
                              (Inl e, l') \<Rightarrow>
                                books out = default_books \<and> l = l'
                              \<and> (\<exists>b\<in>set bs. \<exists>l0. process_book env orc b l0 = (Inl e, l'))
                            | (Inr ps, l') \<Rightarrow>
                                l = l'
                              \<and> list_all2 (\<lambda>b p. \<exists>b1 links. check_book env b = Inr b1
                                    \<and> setitem b1 ''purchase_links'' links = Inr p) bs ps
                              \<and> (case validate_books env ps of
                                    None \<Rightarrow> books out = default_books
                                      \<and> (\<exists>p\<in>set ps. validate_book env p = None)
                                  | Some vs \<Rightarrow> books out = vs
                                      \<and> list_all2 (\<lambda>p v. validate_book env p = Some v) ps vs)))))"
  proof (cases r)
    case (Raises e)
    then show ?thesis using t c out by (auto simp: try_generate_def lg1_def)
  next
    case (Content cc)
    show ?thesis
    proof (cases "json_loads env (strip cc)")
      case None
      then show ?thesis using t c out Content by (auto simp: try_generate_def lg1_def)
    next
      case (Some data)
      show ?thesis
      proof (cases "reply_books data")
        case (Inl e)
        then show ?thesis using t c out Content Some by (auto simp: try_generate_def lg1_def)
      next
        case (Inr bs)
        obtain pr lg2 where pb: "process_books env orc bs [] lg1 = (pr, lg2)"
          by (cases "process_books env orc bs [] lg1")
        from process_books_log[OF pb] obtain rest where
          rest: "lg2 = lg1 @ rest" "fst ` set rest \<subseteq> {FetchRealLinks}" by blast
        have l: "l = lg2" using t c Content Some Inr pb
          by (auto simp: try_generate_def split: sum.splits option.splits)
        have shape: "l = lg @ (GenerateResponse, m, r) # rest"
          using l rest(1) by (simp add: lg1_def)
        show ?thesis
        proof (cases pr)
          case e: (Inl e)
          then have "books out = default_books"
            using t c out Content Some Inr pb by (auto simp: try_generate_def)
          moreover have "\<exists>b\<in>set bs. \<exists>l0. process_book env orc b l0 = (Inl e, lg2)"
            using process_books_fail pb e by blast
          ultimately show ?thesis using shape rest(2) l Content Some Inr pb e by auto
        next
          case ps: (Inr ps)
          have ent: "list_all2 (\<lambda>b p. \<exists>b1 links. check_book env b = Inr b1
                                    \<and> setitem b1 ''purchase_links'' links = Inr p) bs ps"
            using process_books_entries[of env orc bs "[]" lg1 ps lg2] pb ps by simp
          show ?thesis
          proof (cases "validate_books env ps")
            case None
            then have "books out = default_books"
              using t c out Content Some Inr pb ps by (auto simp: try_generate_def)
            moreover have "\<exists>p\<in>set ps. validate_book env p = None"
              using validate_books_fail None by blast
            ultimately show ?thesis
              using shape rest(2) l Content Some Inr pb ps ent None by auto
          next
            case vs: (Some vs)
            then have "books out = vs"
              using t c out Content Some Inr pb ps by (auto simp: try_generate_def)
            moreover have "list_all2 (\<lambda>p v. validate_book env p = Some v) ps vs"
              using validate_books_entries vs by blast
            ultimately show ?thesis
              using shape rest(2) l Content Some Inr pb ps ent vs by auto
          qed
        qed
      qed
    qed
  qed
  then show ?thesis using lg' m_def r_def lg1_def by auto
qed

section \<open>Which guards a request consults\<close>

lemma on_topic_site: "classified_on_topic new \<Longrightarrow> AnalyzeQuery \<in> fst ` set new"
  by (force simp: classified_on_topic_def list_ex_iff)

lemma site_raised_site: "site_raised s new \<Longrightarrow> s \<in> fst ` set new"
  by (force simp: site_raised_def list_ex_iff)

lemma on_topic_Cons:
  "classified_on_topic ((s, m, r) # new) =
     ((s = AnalyzeQuery \<and> (\<exists>c. r = Content c \<and> lower (strip c) = ''true''))
      \<or> classified_on_topic new)"
  by (auto simp: classified_on_topic_def split: reply.splits)

lemma site_raised_Cons:
  "site_raised s ((s', m, r) # new) = ((s' = s \<and> (\<exists>e. r = Raises e)) \<or> site_raised s new)"
  by (auto simp: site_raised_def split: reply.splits)

lemma guards_Nil [simp]:
  "\<not> book_guard_fired env []" "\<not> criteria_guard_fired []" "\<not> classified_off_topic []"
  "\<not> classified_on_topic []" "\<not> site_raised s []"
  by (simp_all add: book_guard_fired_def criteria_guard_fired_def classified_off_topic_def
      classified_on_topic_def site_raised_def)

lemma not_on_topic: "AnalyzeQuery \<notin> fst ` set new \<Longrightarrow> \<not> classified_on_topic new"
  using on_topic_site by blast

lemma not_raised: "s \<notin> fst ` set new \<Longrightarrow> \<not> site_raised s new"
  using site_raised_site by blast

lemmas guard_Cons = book_Cons criteria_Cons off_topic_Cons on_topic_Cons site_raised_Cons

lemma generate_response_first:
  assumes "generate_response env orc query chat_hist criteria lg = (out, lg @ new)"
  shows "GenerateResponse \<in> fst ` set new
       \<and> fst ` set new \<subseteq> {GenerateResponse, FetchRealLinks}"
proof -
  from generate_response_result[OF assms] obtain m r rest where
    "lg @ new = lg @ (GenerateResponse, m, r) # rest" "fst ` set rest \<subseteq> {FetchRealLinks}"
    by blast
  then have "new = (GenerateResponse, m, r) # rest" by simp
  then show ?thesis using \<open>fst ` set rest \<subseteq> _\<close> by auto
qed

lemma fresh_branch_profile:
  assumes "fresh_branch env orc query sid h lg = (resp, h', lg @ new)"
  shows "GenerateResponse \<in> fst ` set new
       \<and> fst ` set new \<subseteq> {GenerateResponse, FetchRealLinks}
       \<and> (\<exists>b. resp = Ok200 fresh_caption (Some b) sid)
       \<and> last_query h' = query"
  using assms
proof (cases rule: fresh_branch_cases)
  case (1 out new2)
  from generate_response_first[OF 1(1)] 1(4,5) show ?thesis
    by (simp add: append_message_def)
qed

lemma topic_branch_profile:
  assumes "topic_branch env orc query sid h lg = (resp, h', lg @ new)"
  shows "AnalyzeQuery \<in> fst ` set new
       \<and> fst ` set new \<subseteq> {AnalyzeQuery, GenerateResponse, FetchRealLinks}
       \<and> (GenerateResponse \<in> fst ` set new \<longleftrightarrow> classified_on_topic new)
       \<and> (classified_on_topic new \<longrightarrow>
            (\<exists>b. resp = Ok200 fresh_caption (Some b) sid) \<and> last_query h' = query)"
  using assms
proof (cases rule: topic_branch_cases)
  case (raised m e)
  then show ?thesis by (auto simp: guard_Cons)
next
  case (off_topic m c)
  then show ?thesis by (auto simp: guard_Cons)
next
  case (on_topic m c)
  from fresh_branch_order[OF on_topic(2)] obtain new2 where
    n: "lg @ new = (lg @ [(AnalyzeQuery, m, Content c)]) @ new2" by blast
  then have new: "new = (AnalyzeQuery, m, Content c) # new2" by simp
  have "fresh_branch env orc query sid h (lg @ [(AnalyzeQuery, m, Content c)])
      = (resp, h', (lg @ [(AnalyzeQuery, m, Content c)]) @ new2)"
    using on_topic(2) n by simp
  from fresh_branch_profile[OF this] show ?thesis
    using new on_topic(1) by (auto simp: guard_Cons)
qed

lemma criteria_branch_profile:
  assumes "criteria_branch env orc query sid h lg = (resp, h', lg @ new)"
  shows "fst ` set new \<subseteq> {IsCriteriaFollowup, AnalyzeQuery, GenerateResponse, FetchRealLinks}
       \<and> (IsCriteriaFollowup \<in> fst ` set new \<longleftrightarrow> truthy (last_query h))
       \<and> (AnalyzeQuery \<in> fst ` set new \<longleftrightarrow>
            \<not> criteria_guard_fired new \<and> \<not> site_raised IsCriteriaFollowup new)
       \<and> (GenerateResponse \<in> fst ` set new \<longleftrightarrow>
            criteria_guard_fired new \<or> classified_on_topic new)
       \<and> (classified_on_topic new \<longrightarrow>
            (\<exists>b. resp = Ok200 fresh_caption (Some b) sid) \<and> last_query h' = query)"
  using assms
proof (cases rule: criteria_branch_cases)
  case no_last_query
  note p = topic_branch_profile[OF no_last_query(2)]
  then have "IsCriteriaFollowup \<notin> fst ` set new" by auto
  then have "\<not> criteria_guard_fired new" "\<not> site_raised IsCriteriaFollowup new"
    by (auto intro!: not_criteria not_raised)
  with p no_last_query(1) show ?thesis by auto
next
  case (raised m e)
  then show ?thesis by (auto simp: guard_Cons)
next
  case (followup m c out new2)
  then have new: "new = (IsCriteriaFollowup, m, Content c) # new2" by simp
  have "generate_response env orc (last_query h) (messages h) query
         (lg @ [(IsCriteriaFollowup, m, Content c)])
       = (out, (lg @ [(IsCriteriaFollowup, m, Content c)]) @ new2)"
    using followup(3) followup(4) by simp
  note p = generate_response_first[OF this]
  then have "AnalyzeQuery \<notin> fst ` set new2" "IsCriteriaFollowup \<notin> fst ` set new2" by auto
  then have "\<not> classified_on_topic new2" "\<not> criteria_guard_fired new2"
    "\<not> site_raised IsCriteriaFollowup new2"
    by (auto intro!: not_on_topic not_criteria not_raised)
  with p show ?thesis
    using new followup(1,2) by (auto simp: guard_Cons)
next
  case (no_followup m c)
  from topic_branch_order[OF no_followup(3)] obtain new2 where
    n: "lg @ new = (lg @ [(IsCriteriaFollowup, m, Content c)]) @ new2" by blast
  then have new: "new = (IsCriteriaFollowup, m, Content c) # new2" by simp
  have "topic_branch env orc query sid h (lg @ [(IsCriteriaFollowup, m, Content c)])
     = (resp, h', (lg @ [(IsCriteriaFollowup, m, Content c)]) @ new2)"
    using no_followup(3) n by simp
  note p = topic_branch_profile[OF this]
  then have "IsCriteriaFollowup \<notin> fst ` set new2" by auto
  then have "\<not> criteria_guard_fired new2" "\<not> site_raised IsCriteriaFollowup new2"
    by (auto intro!: not_criteria not_raised)
  with p show ?thesis
    using new no_followup(1,2) by (auto simp: guard_Cons)
qed

lemma dispatch_first_call:
  assumes "dispatch env orc query sid h lg = (resp, h', lg @ new)"
    and "last_recommended_books h \<noteq> []"
  shows "\<exists>r rest. new = (IsBookFollowup,
               [(''system'', BookFollowupSystem),
                (''user'', BookFollowupUser (last_recommended_books h) query)], r) # rest"
proof -
  define m where "m = [(''system'', BookFollowupSystem),
                (''user'', BookFollowupUser (last_recommended_books h) query)]"
  define r where "r = orc (length lg) IsBookFollowup m"
  define lg1 where "lg1 = lg @ [(IsBookFollowup, m, r)]"
  have "snd (is_book_followup env orc query (last_recommended_books h) lg) = lg1"
    using assms(2)
    by (simp add: is_book_followup_def create_eq Let_def m_def r_def lg1_def split: reply.splits)
  then obtain res where ibf: "is_book_followup env orc query (last_recommended_books h) lg = (res, lg1)"
    by (metis prod.collapse)
  have "\<exists>rest. lg @ new = lg1 @ rest"
  proof (cases res)
    case (Inl e)
    then show ?thesis using assms ibf by (auto simp: dispatch_def)
  next
    case (Inr mb)
    show ?thesis
    proof (cases "truthy mb")
      case True
      obtain g l where g: "get_book_details orc mb query lg1 = (g, l)"
        by (cases "get_book_details orc mb query lg1")
      then have "\<exists>rest. l = lg1 @ rest"
        by (cases rule: get_book_details_cases) auto
      moreover have "lg @ new = l"
        using assms ibf Inr True g by (auto simp: dispatch_def split: sum.splits)
      ultimately show ?thesis by simp
    next
      case False
      then have "criteria_branch env orc query sid h lg1 = (resp, h', lg @ new)"
        using assms ibf Inr by (simp add: dispatch_def)
      from criteria_branch_order[OF this] show ?thesis by blast
    qed
  qed
  then obtain rest where "lg @ new = lg @ (IsBookFollowup, m, r) # rest"
    by (auto simp: lg1_def)
  then have "new = (IsBookFollowup, m, r) # rest" by simp
  then show ?thesis unfolding m_def by blast
qed

lemma dispatch_profile:
  assumes "dispatch env orc query sid h lg = (resp, h', lg @ new)"
  shows "(IsBookFollowup \<in> fst ` set new \<longleftrightarrow> last_recommended_books h \<noteq> [])
       \<and> (GetBookDetails \<in> fst ` set new \<longrightarrow> book_guard_fired env new)
       \<and> (book_guard_fired env new \<longrightarrow>
            (\<exists>e. resp = Err500 e)
            \<or> (GetBookDetails \<in> fst ` set new \<and> (\<exists>t. resp = Ok200 t None sid)))
       \<and> (IsCriteriaFollowup \<in> fst ` set new \<longleftrightarrow>
            truthy (last_query h) \<and> \<not> book_guard_fired env new
            \<and> \<not> site_raised IsBookFollowup new)
       \<and> (AnalyzeQuery \<in> fst ` set new \<longleftrightarrow>
            \<not> book_guard_fired env new \<and> \<not> criteria_guard_fired new
            \<and> \<not> site_raised IsBookFollowup new \<and> \<not> site_raised IsCriteriaFollowup new)
       \<and> (GenerateResponse \<in> fst ` set new \<longleftrightarrow>
            criteria_guard_fired new \<or> classified_on_topic new)
       \<and> (classified_on_topic new \<longrightarrow>
            (\<exists>b. resp = Ok200 fresh_caption (Some b) sid) \<and> last_query h' = query)"
  using assms
proof (cases rule: dispatch_cases)
  case no_books
  note p = criteria_branch_profile[OF no_books(2)]
  then have "IsBookFollowup \<notin> fst ` set new" "GetBookDetails \<notin> fst ` set new" by auto
  then have "\<not> book_guard_fired env new" "\<not> site_raised IsBookFollowup new"
    "GetBookDetails \<notin> fst ` set new"
    by (auto intro!: not_book not_raised)
  with p no_books(1) show ?thesis by auto
next
  case (raised m e)
  then show ?thesis by (auto simp: guard_Cons)
next
  case (matched_failed m c e new2)
  then have new: "new = (IsBookFollowup, m, Content c) # new2" by simp
  have sub: "fst ` set new2 \<subseteq> {GetBookDetails}" using matched_failed(4) .
  then have "IsCriteriaFollowup \<notin> fst ` set new2" "AnalyzeQuery \<notin> fst ` set new2"
    "GenerateResponse \<notin> fst ` set new2" "IsBookFollowup \<notin> fst ` set new2" by auto
  then have "\<not> criteria_guard_fired new2" "\<not> classified_on_topic new2"
    "\<not> site_raised IsBookFollowup new2" "\<not> site_raised IsCriteriaFollowup new2"
    "IsCriteriaFollowup \<notin> fst ` set new2" "AnalyzeQuery \<notin> fst ` set new2"
    "GenerateResponse \<notin> fst ` set new2" "IsBookFollowup \<notin> fst ` set new2"
    by (auto intro!: not_criteria not_on_topic not_raised)
  then show ?thesis using new matched_failed(1,2,7)
    by (auto simp: guard_Cons)
next
  case (matched m c m' d)
  then have new: "new = [(IsBookFollowup, m, Content c), (GetBookDetails, m', Content d)]"
    by simp
  show ?thesis using new matched by (auto simp: guard_Cons)
next
  case (not_matched m c)
  from criteria_branch_order[OF not_matched(3)] obtain new2 where
    n: "lg @ new = (lg @ [(IsBookFollowup, m, Content c)]) @ new2" by blast
  then have new: "new = (IsBookFollowup, m, Content c) # new2" by simp
  have "criteria_branch env orc query sid h (lg @ [(IsBookFollowup, m, Content c)])
     = (resp, h', (lg @ [(IsBookFollowup, m, Content c)]) @ new2)"
    using not_matched(3) n by simp
  note p = criteria_branch_profile[OF this]
  then have "IsBookFollowup \<notin> fst ` set new2" "GetBookDetails \<notin> fst ` set new2" by auto
  then have "\<not> book_guard_fired env new2" "\<not> site_raised IsBookFollowup new2"
    "IsBookFollowup \<notin> fst ` set new2" "GetBookDetails \<notin> fst ` set new2"
    by (auto intro!: not_book not_raised)
  with p show ?thesis
    using new not_matched(1,2) by (auto simp: guard_Cons)
qed

lemma reaches_dispatch_cases:
  assumes "reaches_dispatch env req"
    and "chatbot env orc req store lg = (resp, store', lg')"
  obtains k q sid ut h' where "request_key req = Some k" "request_query req = Some q"
    "truthy q" "validate_str env q = Some ut"
    "dispatch env orc q sid (append_message ''user'' ut (history_of store k)) lg
       = (resp, h', lg')"
    "store' = store(k \<mapsto> h')"
proof -
  from assms(1) obtain k q ut where rk: "request_key req = Some k"
    and rq: "request_query req = Some q" and tq: "truthy q"
    and vs: "validate_str env q = Some ut"
    by (auto simp: reaches_dispatch_def split: option.splits)
  from rk obtain data sid where req: "req = Inr data"
    and sid: "py_get data ''session_id'' (JStr ''default'') = Inr sid"
    and k: "hash_key sid = Inr k"
    by (auto simp: request_key_def split: sum.splits)
  from rq req have q: "py_get data ''query'' JNull = Inr q"
    by (auto simp: request_query_def split: sum.splits)
  define store1 where "store1 = (if store k = None then store(k \<mapsto> new_history) else store)"
  have h1: "history_of store1 k = history_of store k"
    by (auto simp: store1_def history_of_def)
  obtain r h' l where d: "dispatch env orc q sid
      (append_message ''user'' ut (history_of store k)) lg = (r, h', l)"
    by (cases "dispatch env orc q sid (append_message ''user'' ut (history_of store k)) lg")
  have "resp = r" "lg' = l" "store' = store1(k \<mapsto> h')"
    using assms(2) req q sid tq k vs d h1
    by (auto simp: chatbot_def Let_def store1_def)
  moreover have "store1(k \<mapsto> h') = store(k \<mapsto> h')"
    by (auto simp: store1_def)
  ultimately show ?thesis using that[OF rk rq tq vs] d by simp
qed

lemma not_reaches_dispatch:
  assumes "\<not> reaches_dispatch env req"
    and "chatbot env orc req store lg = (resp, store', lg')"
  shows "lg' = lg"
  using assms(2)
proof (cases rule: chatbot_cases)
  case (dispatched data k q sid ut h')
  then have "reaches_dispatch env req" by (simp add: reaches_dispatch_def)
  then show ?thesis using assms(1) by simp
qed

section \<open>The example runs\<close>

lemma hello_key: "request_key hello_request = Some (KStr ''default'')"
  by code_simp
lemma hello_query: "request_query hello_request = Some (JStr ''hello'')"
  by code_simp
lemma hello_content: "validate_str example_env (JStr ''hello'') = Some ''hello''"
  by code_simp

lemma hello_reaches: "reaches_dispatch example_env hello_request"
  by code_simp

lemma italian_reaches: "reaches_dispatch example_env italian_request"
  by code_simp

lemma classics_history:
  "last_recommended_books (history_of classics_store (KStr ''default'')) = [gatsby]"
  "last_query (history_of classics_store (KStr ''default'')) = JStr ''classics''"
  by (simp_all add: classics_store_def history_of_def)

section \<open>The recommendations\<close>

text \<open>
  C1, as the code has it. \<^verbatim>\<open>generate_response\<close> makes one call with the system prompt, the
  last five messages and the query, then one \<^verbatim>\<open>fetch_real_links\<close> call for each entry it
  gets to; it never raises and never returns an empty list, but the length of the list is
  that of the reply. It returns the three default books when the call raises, when the
  reply is not JSON, when it is no dict with a non-empty list under \<^verbatim>\<open>books\<close>, when the loop
  stops at an entry that fails, and when \<^verbatim>\<open>Output\<close> rejects a processed entry. Otherwise
  it returns exactly one book for each entry of the reply, in order: the entry as
  \<open>check_book\<close> leaves it, with its \<^verbatim>\<open>purchase_links\<close> replaced, as \<^verbatim>\<open>Book\<close> validates it.
\<close>

theorem generate_response_books:
  assumes "generate_response env orc query chat_hist criteria lg = (out, lg')"
  shows "length default_books = 3 \<and> books out \<noteq> []
       \<and> (\<exists>m r rest.
           m = [(''system'', recommend_system criteria)] @ history_msgs (last_n 5 chat_hist)
               @ [(''user'', Val query)]
         \<and> r = orc (length lg) GenerateResponse m
         \<and> lg' = lg @ (GenerateResponse, m, r) # rest
         \<and> fst ` set rest \<subseteq> {FetchRealLinks}
         \<and> (case r of
               Raises e \<Rightarrow> books out = default_books \<and> rest = []
             | Content c \<Rightarrow>
                 (case json_loads env (strip c) of
                    None \<Rightarrow> books out = default_books \<and> rest = []
                  | Some data \<Rightarrow>
                      (case reply_books data of
                         Inl e \<Rightarrow> books out = default_books \<and> rest = []
                       | Inr bs \<Rightarrow>
                           (case process_books env orc bs [] (lg @ [(GenerateResponse, m, r)]) of
                              (Inl e, l) \<Rightarrow>
                                books out = default_books \<and> lg' = l
                              \<and> (\<exists>b\<in>set bs. \<exists>l0. process_book env orc b l0 = (Inl e, l))
                            | (Inr ps, l) \<Rightarrow>
                                lg' = l
                              \<and> list_all2 (\<lambda>b p. \<exists>b1 links. check_book env b = Inr b1
                                    \<and> setitem b1 ''purchase_links'' links = Inr p) bs ps
                              \<and> (case validate_books env ps of
                                    None \<Rightarrow> books out = default_books
                                      \<and> (\<exists>p\<in>set ps. validate_book env p = None)
                                  | Some vs \<Rightarrow> books out = vs
                                      \<and> list_all2 (\<lambda>p v. validate_book env p = Some v) ps vs))))))"
proof -
  have "books out \<noteq> []" using generate_response_result [OF assms] by blast
  with generate_response_exact [OF assms] length_default_books show ?thesis by simp
qed

text \<open>
  C1 as stated fails: a reply with one well-formed book gives a list of one book.
\<close>

theorem generate_response_one_book:
  "books (fst (generate_response example_env (scripted_client ''null'' ''false'' ''true'')
                 (JStr ''sci-fi'') [] JNull []))
     = [\<lparr>title = ''Dune'', author = [''Frank Herbert''], price = 999 / 100, summary = ''Sand'',
         purchase_links = [(''amazon'', ''https://www.amazon.it/s?k=dune''),
                           (''lafeltrinelli'', ''https://www.lafeltrinelli.it/search?q=dune'')]\<rparr>]
   \<and> length (books (fst (generate_response example_env
                 (scripted_client ''null'' ''false'' ''true'') (JStr ''sci-fi'') [] JNull []))) \<noteq> 3"
  by code_simp

text \<open>
  The theorem at that reply, and with the service down.
\<close>

theorem generate_response_books_witness:
  "books (fst (generate_response example_env (scripted_client ''null'' ''false'' ''true'')
                 (JStr ''sci-fi'') [] JNull [])) = [dune_book]
   \<and> books (fst (generate_response example_env failing_client (JStr ''sci-fi'') [] JNull []))
       = default_books"
proof -
  let ?orc = "scripted_client ''null'' ''false'' ''true''"
  have m: "(''system'', recommend_system JNull) # history_msgs (last_n 5 [])
               @ [(''user'', Val (JStr ''sci-fi''))] = sci_fi_msgs"
    by code_simp
  have r: "?orc 0 GenerateResponse sci_fi_msgs = Content one_book_text"
    by (simp add: scripted_client_def)
  have loads: "json_loads example_env (strip one_book_text) = Some one_book_json"
    by code_simp
  have rb: "reply_books one_book_json = Inr [dune_entry]"
    by code_simp
  have pb: "process_books example_env ?orc [dune_entry] []
       [(GenerateResponse, sci_fi_msgs, Content one_book_text)]
     = (Inr [dune_processed],
        [(GenerateResponse, sci_fi_msgs, Content one_book_text),
         (FetchRealLinks, [(''user'', LinksUser (JStr ''Dune'') (JStr ''Frank Herbert''))],
          Content ''sorry'')])"
    by code_simp
  have vb: "validate_books example_env [dune_processed] = Some [dune_book]"
    by code_simp
  have run1: "generate_response example_env ?orc (JStr ''sci-fi'') [] JNull []
      = (fst (generate_response example_env ?orc (JStr ''sci-fi'') [] JNull []),
         snd (generate_response example_env ?orc (JStr ''sci-fi'') [] JNull []))"
    by simp
  have one: "books (fst (generate_response example_env ?orc (JStr ''sci-fi'') [] JNull []))
       = [dune_book]"
    using generate_response_books [OF run1]
    by (auto simp add: m r loads rb pb vb simp del: process_books.simps validate_books.simps)
  have rf: "failing_client 0 GenerateResponse sci_fi_msgs = Raises (OracleError ''timeout'')"
    by (simp add: failing_client_def)
  have run2: "generate_response example_env failing_client (JStr ''sci-fi'') [] JNull []
      = (fst (generate_response example_env failing_client (JStr ''sci-fi'') [] JNull []),
         snd (generate_response example_env failing_client (JStr ''sci-fi'') [] JNull []))"
    by simp
  have two: "books (fst (generate_response example_env failing_client (JStr ''sci-fi'') [] JNull []))
       = default_books"
    using generate_response_books [OF run2]
    by (simp add: m rf)
  from one two show ?thesis by simp
qed

section \<open>A call that fails\<close>

text \<open>
  C2, as the code has it. When a call made outside a \<^verbatim>\<open>try\<close> raises (any call but those of
  \<^verbatim>\<open>generate_response\<close> and \<^verbatim>\<open>fetch_real_links\<close>), the handler answers 500 with that error,
  and the session is left with the user message appended and nothing else changed: no
  assistant message, and \<^verbatim>\<open>last_recommended_books\<close> and \<^verbatim>\<open>last_query\<close> as they were.
\<close>

theorem uncaught_failure_keeps_user_message:
  assumes "chatbot env orc req store lg = (resp, store', lg @ new)"
    and "(s, m, Raises e) \<in> set new" and "s \<noteq> GenerateResponse" and "s \<noteq> FetchRealLinks"
  shows "resp = Err500 e
       \<and> (\<exists>k q ut. request_key req = Some k \<and> request_query req = Some q
            \<and> validate_str env q = Some ut
            \<and> store' = store(k \<mapsto> append_message ''user'' ut (history_of store k)))"
  using assms(1)
proof (cases rule: chatbot_cases)
  case (dispatched data k q sid ut h')
  from dispatch_raise[OF dispatched(7) assms(2-4)] show ?thesis using dispatched by blast
qed (use assms(2) in auto)

text \<open>
  C2 as stated fails: with the service down, the first request of a session is answered 500
  and leaves the user message in the session, with no assistant message after it.
\<close>

theorem failing_run_keeps_user_message:
  "fst failing_run = Err500 (OracleError ''timeout'')
   \<and> messages (history_of Map.empty (KStr ''default'')) = []
   \<and> messages (history_of (fst (snd failing_run)) (KStr ''default''))
       = [\<lparr>role = ''user'', content = ''hello''\<rparr>]"
  by code_simp

text \<open>
  The theorem at that request.
\<close>

theorem uncaught_failure_keeps_user_message_witness:
  "fst failing_run = Err500 (OracleError ''timeout'')
   \<and> fst (snd failing_run)
       = Map.empty(KStr ''default'' \<mapsto>
           append_message ''user'' ''hello'' (history_of Map.empty (KStr ''default'')))"
proof -
  have run: "chatbot example_env failing_client hello_request Map.empty []
      = (fst failing_run, fst (snd failing_run), [] @ snd (snd failing_run))"
    by (simp add: failing_run_def)
  have raised: "(AnalyzeQuery,
       [(''system'', TopicSystem), (''user'', Val (JStr ''hello'')),
        (''user'', Val (JStr ''hello''))],
       Raises (OracleError ''timeout'')) \<in> set (snd (snd failing_run))"
    by code_simp
  from uncaught_failure_keeps_user_message [OF run raised] show ?thesis
    using hello_key hello_query hello_content by auto
qed

section \<open>The context of the topic classification\<close>

text \<open>
  C3. The handler appends the user message to the history before it calls
  \<^verbatim>\<open>analyze_query\<close> with that history, and \<^verbatim>\<open>analyze_query\<close> adds the query after the slice:
  on the first request of a session the service is sent the query twice.
\<close>

theorem analyze_query_sees_query_twice:
  "snd (snd off_topic_run) =
     [(AnalyzeQuery,
       [(''system'', TopicSystem), (''user'', Val (JStr ''hello'')),
        (''user'', Val (JStr ''hello''))],
       Content ''false'')]"
  by code_simp

section \<open>The messages of a session\<close>

text \<open>
  C4. A request answered 200 appends two messages to its session, the query as a user
  message and then the text of the response as an assistant message, and leaves the other
  sessions alone; a request answered 400 leaves the whole store as it was.
\<close>

theorem chatbot_messages_growth:
  assumes "chatbot env orc req store lg = (resp, store', lg')"
  shows "(\<forall>t b sid. resp = Ok200 t b sid \<longrightarrow>
           (\<exists>k q ut. request_key req = Some k \<and> request_query req = Some q
              \<and> validate_str env q = Some ut
              \<and> messages (history_of store' k)
                  = messages (history_of store k)
                    @ [\<lparr>role = ''user'', content = ut\<rparr>, \<lparr>role = ''assistant'', content = t\<rparr>]
              \<and> (\<forall>k'. k' \<noteq> k \<longrightarrow> store' k' = store k')))
       \<and> (\<forall>msg. resp = Err400 msg \<longrightarrow> store' = store)"
  using assms
proof (cases rule: chatbot_cases)
  case (dispatched data k q sid ut h')
  from dispatch_history[OF dispatched(7)]
  have "\<forall>t b sid'. resp = Ok200 t b sid' \<longrightarrow>
          messages h' = messages (history_of store k)
             @ [\<lparr>role = ''user'', content = ut\<rparr>, \<lparr>role = ''assistant'', content = t\<rparr>]"
    by (auto simp: append_message_def)
  moreover have "\<forall>msg. resp \<noteq> Err400 msg"
    using dispatch_history[OF dispatched(7)] by auto
  ultimately show ?thesis using dispatched(3,4,6,8) by auto
qed auto

text \<open>
  The theorem at a first request that gets a recommendation, and at a request with no query.
\<close>

theorem chatbot_messages_growth_witness:
  "messages (history_of (fst (snd fresh_run)) (KStr ''default''))
     = messages (history_of Map.empty (KStr ''default''))
       @ [\<lparr>role = ''user'', content = ''hello''\<rparr>,
          \<lparr>role = ''assistant'', content = fresh_caption\<rparr>]
   \<and> fst missing_query_run = Err400 ''No query provided''
   \<and> fst (snd missing_query_run) = classics_store"
proof -
  have run: "chatbot example_env (scripted_client ''null'' ''false'' ''true'') hello_request
      Map.empty [] = (fst fresh_run, fst (snd fresh_run), snd (snd fresh_run))"
    by (simp add: fresh_run_def)
  have "case fst fresh_run of Ok200 t b s \<Rightarrow> t = fresh_caption | _ \<Rightarrow> False"
    by code_simp
  then obtain b s where "fst fresh_run = Ok200 fresh_caption b s"
    by (cases "fst fresh_run") auto
  with chatbot_messages_growth [OF run] have grown:
    "messages (history_of (fst (snd fresh_run)) (KStr ''default''))
     = messages (history_of Map.empty (KStr ''default''))
       @ [\<lparr>role = ''user'', content = ''hello''\<rparr>,
          \<lparr>role = ''assistant'', content = fresh_caption\<rparr>]"
    using hello_key hello_query hello_content by auto
  have run400: "chatbot example_env failing_client (Inr (JObj [])) classics_store []
      = (fst missing_query_run, fst (snd missing_query_run), snd (snd missing_query_run))"
    by (simp add: missing_query_run_def)
  have resp400: "fst missing_query_run = Err400 ''No query provided''"
    by code_simp
  with chatbot_messages_growth [OF run400] have "fst (snd missing_query_run) = classics_store"
    by simp
  with grown resp400 show ?thesis by simp
qed

section \<open>The chain of guards\<close>

text \<open>
  C5. The calls of a request are in the order of the chain (follow-up on a book, its
  details, follow-up with criteria, topic, recommendation, links), each guard being
  consulted at most once, and each guard is consulted exactly when the request reaches it:
  \<^item> the follow-up on a book, as the first call, when the request reaches the chain and its
    session has recommended books;
  \<^item> the follow-up with criteria when moreover \<^verbatim>\<open>last_query\<close> is truthy and the first guard
    neither matched nor raised;
  \<^item> the topic classification when no earlier guard matched or raised;
  \<^item> the recommendation when the follow-up with criteria matched or the topic was
    classified as books.
  A guard that matched decides the response and keeps the later branches from running: after
  a matched follow-up on a book only the details are asked for, the response carries no
  books, and \<^verbatim>\<open>last_recommended_books\<close> and \<^verbatim>\<open>last_query\<close> stay as they were; after a matched
  follow-up with criteria the topic is not classified, the response has the criteria caption
  and \<^verbatim>\<open>last_query\<close> stays; after an off-topic classification nothing is recommended and
  both stay; after a classification as books the response has the fresh caption and
  \<^verbatim>\<open>last_query\<close> is the query.
\<close>

theorem dispatch_chain_order:
  assumes "chatbot env orc req store lg = (resp, store', lg @ new)"
  shows "chain_order (map fst new)
       \<and> (IsBookFollowup \<in> fst ` set new \<longleftrightarrow>
            reaches_dispatch env req
            \<and> last_recommended_books (session_before store req) \<noteq> [])
       \<and> (IsBookFollowup \<in> fst ` set new \<longrightarrow> fst (hd new) = IsBookFollowup)
       \<and> (GetBookDetails \<in> fst ` set new \<longrightarrow> book_guard_fired env new)
       \<and> (IsCriteriaFollowup \<in> fst ` set new \<longleftrightarrow>
            reaches_dispatch env req
            \<and> truthy (last_query (session_before store req))
            \<and> \<not> book_guard_fired env new \<and> \<not> site_raised IsBookFollowup new)
       \<and> (AnalyzeQuery \<in> fst ` set new \<longleftrightarrow>
            reaches_dispatch env req
            \<and> \<not> book_guard_fired env new \<and> \<not> criteria_guard_fired new
            \<and> \<not> site_raised IsBookFollowup new \<and> \<not> site_raised IsCriteriaFollowup new)
       \<and> (GenerateResponse \<in> fst ` set new \<longleftrightarrow>
            criteria_guard_fired new \<or> classified_on_topic new)
       \<and> (book_guard_fired env new \<longrightarrow>
            fst ` set new \<subseteq> {IsBookFollowup, GetBookDetails}
          \<and> ((\<exists>e. resp = Err500 e)
              \<or> (GetBookDetails \<in> fst ` set new \<and> (\<exists>t sid. resp = Ok200 t None sid)))
          \<and> (\<forall>k. last_recommended_books (history_of store' k)
                    = last_recommended_books (history_of store k)
                \<and> last_query (history_of store' k) = last_query (history_of store k)))
       \<and> (criteria_guard_fired new \<longrightarrow>
            fst ` set new \<subseteq> {IsBookFollowup, IsCriteriaFollowup, GenerateResponse, FetchRealLinks}
          \<and> (\<exists>b sid. resp = Ok200 criteria_caption (Some b) sid)
          \<and> (\<forall>k. last_query (history_of store' k) = last_query (history_of store k)))
       \<and> (classified_off_topic new \<longrightarrow>
            fst ` set new \<subseteq> {IsBookFollowup, IsCriteriaFollowup, AnalyzeQuery}
          \<and> (\<exists>sid. resp = Ok200 rejection_text None sid)
          \<and> (\<forall>k. last_recommended_books (history_of store' k)
                    = last_recommended_books (history_of store k)
                \<and> last_query (history_of store' k) = last_query (history_of store k)))
       \<and> (classified_on_topic new \<longrightarrow>
            (\<exists>b sid. resp = Ok200 fresh_caption (Some b) sid)
          \<and> (\<forall>k. request_key req = Some k \<longrightarrow>
                request_query req = Some (last_query (history_of store' k))))"
proof (cases "reaches_dispatch env req")
  case False
  from not_reaches_dispatch[OF False assms] have "new = []" by simp
  then show ?thesis using False by (simp add: chain_order_def)
next
  case True
  from True assms show ?thesis
  proof (cases rule: reaches_dispatch_cases)
    case (1 k q sid ut h')
    define h where "h = append_message ''user'' ut (history_of store k)"
    have d: "dispatch env orc q sid h lg = (resp, h', lg @ new)"
      using 1(5) by (simp add: h_def)
    have h: "last_recommended_books h = last_recommended_books (session_before store req)"
      "last_query h = last_query (session_before store req)"
      by (simp_all add: h_def append_message_def session_before_def 1(1))
    have hk: "last_recommended_books h = last_recommended_books (history_of store k)"
      "last_query h = last_query (history_of store k)"
      by (simp_all add: h_def append_message_def)
    have other: "history_of store' k' = history_of store k'" if "k' \<noteq> k" for k'
      using that 1(6) by (simp add: history_of_other)
    have here: "history_of store' k = h'" using 1(6) by simp
    note p = dispatch_profile[OF d]
    have c0: "chain_order (map fst new)" using dispatch_order[OF d] by auto
    have c1: "IsBookFollowup \<in> fst ` set new \<longleftrightarrow>
            reaches_dispatch env req
            \<and> last_recommended_books (session_before store req) \<noteq> []"
      using p True h by simp
    have c2: "IsBookFollowup \<in> fst ` set new \<longrightarrow> fst (hd new) = IsBookFollowup"
    proof
      assume "IsBookFollowup \<in> fst ` set new"
      then have "last_recommended_books h \<noteq> []" using p by simp
      from dispatch_first_call[OF d this] show "fst (hd new) = IsBookFollowup" by auto
    qed
    have c3: "GetBookDetails \<in> fst ` set new \<longrightarrow> book_guard_fired env new"
      using p by simp
    have c4: "IsCriteriaFollowup \<in> fst ` set new \<longleftrightarrow>
            reaches_dispatch env req
            \<and> truthy (last_query (session_before store req))
            \<and> \<not> book_guard_fired env new \<and> \<not> site_raised IsBookFollowup new"
      using p True h by simp
    have c5: "AnalyzeQuery \<in> fst ` set new \<longleftrightarrow>
            reaches_dispatch env req
            \<and> \<not> book_guard_fired env new \<and> \<not> criteria_guard_fired new
            \<and> \<not> site_raised IsBookFollowup new \<and> \<not> site_raised IsCriteriaFollowup new"
      using p True by simp
    have c6: "GenerateResponse \<in> fst ` set new \<longleftrightarrow>
            criteria_guard_fired new \<or> classified_on_topic new"
      using p by simp
    have c7: "fst ` set new \<subseteq> {IsBookFollowup, GetBookDetails}
          \<and> ((\<exists>e. resp = Err500 e)
              \<or> (GetBookDetails \<in> fst ` set new \<and> (\<exists>t sid. resp = Ok200 t None sid)))
          \<and> (\<forall>k. last_recommended_books (history_of store' k)
                    = last_recommended_books (history_of store k)
                \<and> last_query (history_of store' k) = last_query (history_of store k))"
      if bf: "book_guard_fired env new"
    proof -
      have "(\<exists>e. resp = Err500 e)
              \<or> (GetBookDetails \<in> fst ` set new \<and> (\<exists>t sid. resp = Ok200 t None sid))"
        using p bf by blast
      moreover have "fst ` set new \<subseteq> {IsBookFollowup, GetBookDetails}"
        "\<forall>k. last_recommended_books (history_of store' k)
                    = last_recommended_books (history_of store k)
                \<and> last_query (history_of store' k) = last_query (history_of store k)"
        using dispatch_book_fired[OF d bf] hk other here by metis+
      ultimately show ?thesis by blast
    qed
    have c8: "fst ` set new \<subseteq> {IsBookFollowup, IsCriteriaFollowup, GenerateResponse, FetchRealLinks}
          \<and> (\<exists>b sid. resp = Ok200 criteria_caption (Some b) sid)
          \<and> (\<forall>k. last_query (history_of store' k) = last_query (history_of store k))"
      if cf: "criteria_guard_fired new"
    proof -
      from dispatch_fired[OF d cf] have
        "fst ` set new \<subseteq> {IsBookFollowup, IsCriteriaFollowup, GenerateResponse, FetchRealLinks}"
        "\<exists>b sid. resp = Ok200 criteria_caption (Some b) sid"
        "last_query h' = last_query h" by (auto simp: append_message_def)
      then show ?thesis using hk other here by metis
    qed
    have c9: "fst ` set new \<subseteq> {IsBookFollowup, IsCriteriaFollowup, AnalyzeQuery}
          \<and> (\<exists>sid. resp = Ok200 rejection_text None sid)
          \<and> (\<forall>k. last_recommended_books (history_of store' k)
                    = last_recommended_books (history_of store k)
                \<and> last_query (history_of store' k) = last_query (history_of store k))"
      if off: "classified_off_topic new"
    proof -
      from dispatch_off[OF d off] have
        "fst ` set new \<subseteq> {IsBookFollowup, IsCriteriaFollowup, AnalyzeQuery}"
        "\<exists>sid. resp = Ok200 rejection_text None sid"
        "last_query h' = last_query h" "last_recommended_books h' = last_recommended_books h"
        by (auto simp: append_message_def)
      then show ?thesis using hk other here by metis
    qed
    have c10: "(\<exists>b sid. resp = Ok200 fresh_caption (Some b) sid)
          \<and> (\<forall>k. request_key req = Some k \<longrightarrow>
                request_query req = Some (last_query (history_of store' k)))"
      if on: "classified_on_topic new"
      using p on 1(1,2) here by auto
    show ?thesis using c0 c1 c2 c3 c4 c5 c6 c7 c8 c9 c10 by blast
  qed
qed

text \<open>
  The theorem at three requests after a recommendation of classics (a follow-up on a book,
  a follow-up with criteria, an off-topic query) and at a first request about books.
\<close>

theorem dispatch_chain_order_witness:
  "book_guard_fired example_env (snd (snd detail_run))
   \<and> IsBookFollowup \<in> fst ` set (snd (snd detail_run))
   \<and> IsCriteriaFollowup \<notin> fst ` set (snd (snd detail_run))
   \<and> last_query (history_of (fst (snd detail_run)) (KStr ''default'')) = JStr ''classics''
   \<and> criteria_guard_fired (snd (snd criteria_run))
   \<and> IsBookFollowup \<in> fst ` set (snd (snd criteria_run))
   \<and> IsCriteriaFollowup \<in> fst ` set (snd (snd criteria_run))
   \<and> AnalyzeQuery \<notin> fst ` set (snd (snd criteria_run))
   \<and> GenerateResponse \<in> fst ` set (snd (snd criteria_run))
   \<and> last_query (history_of (fst (snd criteria_run)) (KStr ''default'')) = JStr ''classics''
   \<and> classified_off_topic (snd (snd rejected_run))
   \<and> IsCriteriaFollowup \<in> fst ` set (snd (snd rejected_run))
   \<and> AnalyzeQuery \<in> fst ` set (snd (snd rejected_run))
   \<and> GenerateResponse \<notin> fst ` set (snd (snd rejected_run))
   \<and> last_recommended_books (history_of (fst (snd rejected_run)) (KStr ''default'')) = [gatsby]
   \<and> classified_on_topic (snd (snd fresh_run))
   \<and> IsBookFollowup \<notin> fst ` set (snd (snd fresh_run))
   \<and> IsCriteriaFollowup \<notin> fst ` set (snd (snd fresh_run))
   \<and> AnalyzeQuery \<in> fst ` set (snd (snd fresh_run))
   \<and> GenerateResponse \<in> fst ` set (snd (snd fresh_run))
   \<and> last_query (history_of (fst (snd fresh_run)) (KStr ''default'')) = JStr ''hello''"
proof -
  have before: "last_recommended_books (session_before classics_store hello_request) = [gatsby]"
    "last_query (session_before classics_store hello_request) = JStr ''classics''"
    "last_recommended_books (session_before classics_store italian_request) = [gatsby]"
    "last_query (session_before classics_store italian_request) = JStr ''classics''"
    "last_recommended_books (session_before Map.empty hello_request) = []"
    "last_query (session_before Map.empty hello_request) = JNull"
    by code_simp+
  have run1: "chatbot example_env (scripted_client dune_text ''false'' ''false'') hello_request
      classics_store [] = (fst detail_run, fst (snd detail_run), [] @ snd (snd detail_run))"
    by (simp add: detail_run_def)
  have fired1: "book_guard_fired example_env (snd (snd detail_run))"
    by code_simp
  have 1: "IsBookFollowup \<in> fst ` set (snd (snd detail_run))
   \<and> IsCriteriaFollowup \<notin> fst ` set (snd (snd detail_run))
   \<and> last_query (history_of (fst (snd detail_run)) (KStr ''default'')) = JStr ''classics''"
    using dispatch_chain_order [OF run1] fired1 hello_reaches before classics_history by simp
  have run2: "chatbot example_env (scripted_client ''null'' ''true'' ''false'') italian_request
      classics_store [] = (fst criteria_run, fst (snd criteria_run), [] @ snd (snd criteria_run))"
    by (simp add: criteria_run_def)
  have fired2: "criteria_guard_fired (snd (snd criteria_run))"
    "\<not> book_guard_fired example_env (snd (snd criteria_run))"
    "\<not> site_raised IsBookFollowup (snd (snd criteria_run))"
    by code_simp+
  have 2: "IsBookFollowup \<in> fst ` set (snd (snd criteria_run))
   \<and> IsCriteriaFollowup \<in> fst ` set (snd (snd criteria_run))
   \<and> AnalyzeQuery \<notin> fst ` set (snd (snd criteria_run))
   \<and> GenerateResponse \<in> fst ` set (snd (snd criteria_run))
   \<and> last_query (history_of (fst (snd criteria_run)) (KStr ''default'')) = JStr ''classics''"
    using dispatch_chain_order [OF run2] fired2 italian_reaches before classics_history by simp
  have run3: "chatbot example_env (scripted_client ''null'' ''false'' ''false'') hello_request
      classics_store [] = (fst rejected_run, fst (snd rejected_run), [] @ snd (snd rejected_run))"
    by (simp add: rejected_run_def)
  have fired3: "classified_off_topic (snd (snd rejected_run))"
    "\<not> classified_on_topic (snd (snd rejected_run))"
    "\<not> book_guard_fired example_env (snd (snd rejected_run))"
    "\<not> criteria_guard_fired (snd (snd rejected_run))"
    "\<not> site_raised IsBookFollowup (snd (snd rejected_run))"
    "\<not> site_raised IsCriteriaFollowup (snd (snd rejected_run))"
    by code_simp+
  have 3: "IsCriteriaFollowup \<in> fst ` set (snd (snd rejected_run))
   \<and> AnalyzeQuery \<in> fst ` set (snd (snd rejected_run))
   \<and> GenerateResponse \<notin> fst ` set (snd (snd rejected_run))
   \<and> last_recommended_books (history_of (fst (snd rejected_run)) (KStr ''default'')) = [gatsby]"
    using dispatch_chain_order [OF run3] fired3 hello_reaches before classics_history by simp
  have run4: "chatbot example_env (scripted_client ''null'' ''false'' ''true'') hello_request
      Map.empty [] = (fst fresh_run, fst (snd fresh_run), [] @ snd (snd fresh_run))"
    by (simp add: fresh_run_def)
  have fired4: "classified_on_topic (snd (snd fresh_run))"
    "\<not> book_guard_fired example_env (snd (snd fresh_run))"
    "\<not> criteria_guard_fired (snd (snd fresh_run))"
    "\<not> site_raised IsBookFollowup (snd (snd fresh_run))"
    "\<not> site_raised IsCriteriaFollowup (snd (snd fresh_run))"
    by code_simp+
  have 4: "IsBookFollowup \<notin> fst ` set (snd (snd fresh_run))
   \<and> IsCriteriaFollowup \<notin> fst ` set (snd (snd fresh_run))
   \<and> AnalyzeQuery \<in> fst ` set (snd (snd fresh_run))
   \<and> GenerateResponse \<in> fst ` set (snd (snd fresh_run))
   \<and> last_query (history_of (fst (snd fresh_run)) (KStr ''default'')) = JStr ''hello''"
    using dispatch_chain_order [OF run4] fired4 hello_reaches before hello_key hello_query
    by simp
  show ?thesis using 1 2 3 4 fired1 fired2(1) fired3(1) fired4(1) by simp
qed

text \<open>
  C6. When the follow-up with criteria matches, \<^verbatim>\<open>last_query\<close> is truthy,
  \<^verbatim>\<open>generate_response\<close> is called with the stored \<^verbatim>\<open>last_query\<close> as its query, the messages
  of the session (the user message included) as its history and the incoming query as its
  criteria; the response carries the new books, which replace \<^verbatim>\<open>last_recommended_books\<close>,
  and \<^verbatim>\<open>last_query\<close> keeps its value.
\<close>

theorem criteria_followup_call:
  assumes "chatbot env orc req store lg = (resp, store', lg @ new)"
    and "criteria_guard_fired new"
  shows "\<exists>k q ut sid pre m c out.
           request_key req = Some k \<and> request_query req = Some q
         \<and> validate_str env q = Some ut
         \<and> truthy (last_query (history_of store k))
         \<and> generate_response env orc (last_query (history_of store k))
              (messages (history_of store k) @ [\<lparr>role = ''user'', content = ut\<rparr>]) q
              (lg @ pre @ [(IsCriteriaFollowup, m, Content c)]) = (out, lg @ new)
         \<and> resp = Ok200 criteria_caption (Some (map book_dict (books out))) sid
         \<and> last_recommended_books (history_of store' k) = map book_dict (books out)
         \<and> last_query (history_of store' k) = last_query (history_of store k)"
  using assms(1)
proof (cases rule: chatbot_cases)
  case (dispatched data k q sid ut h')
  define h where "h = append_message ''user'' ut (history_of store k)"
  have d: "dispatch env orc q sid h lg = (resp, h', lg @ new)"
    using dispatched(7) by (simp add: h_def)
  have h: "messages h = messages (history_of store k) @ [\<lparr>role = ''user'', content = ut\<rparr>]"
    "last_query h = last_query (history_of store k)"
    by (simp_all add: h_def append_message_def)
  from dispatch_fired[OF d assms(2)] obtain pre m c out where
    f: "truthy (last_query h)"
    "generate_response env orc (last_query h) (messages h) q
              (lg @ pre @ [(IsCriteriaFollowup, m, Content c)]) = (out, lg @ new)"
    "resp = Ok200 criteria_caption (Some (map book_dict (books out))) sid"
    "h' = append_message ''assistant'' criteria_caption
                   (h\<lparr>last_recommended_books := map book_dict (books out)\<rparr>)" by blast
  have "last_recommended_books (history_of store' k) = map book_dict (books out)"
    "last_query (history_of store' k) = last_query (history_of store k)"
    using dispatched(8) f(4) h by (simp_all add: append_message_def)
  then show ?thesis using dispatched(3,4,6) f(1,2,3) h by metis
qed (use assms(2) in \<open>auto simp: criteria_guard_fired_def\<close>)

text \<open>
  The theorem at a request for books in Italian after a recommendation of classics.
\<close>

theorem criteria_followup_call_witness:
  "criteria_guard_fired (snd (snd criteria_run))
   \<and> truthy (last_query (history_of classics_store (KStr ''default'')))
   \<and> last_query (history_of (fst (snd criteria_run)) (KStr ''default'')) = JStr ''classics''"
proof -
  have run: "chatbot example_env (scripted_client ''null'' ''true'' ''false'') italian_request
      classics_store [] = (fst criteria_run, fst (snd criteria_run), [] @ snd (snd criteria_run))"
    by (simp add: criteria_run_def)
  have fired: "criteria_guard_fired (snd (snd criteria_run))"
    by code_simp
  have key: "request_key italian_request = Some (KStr ''default'')"
    by code_simp
  from criteria_followup_call [OF run fired] fired show ?thesis
    using key classics_history by auto
qed

text \<open>
  C7. When the topic classification answers anything but \<^verbatim>\<open>true\<close>, the response is the
  rejection text with no books, and \<^verbatim>\<open>last_recommended_books\<close> and \<^verbatim>\<open>last_query\<close> are those
  of before the request, in every session.
\<close>

theorem off_topic_leaves_recommendations:
  assumes "chatbot env orc req store lg = (resp, store', lg @ new)"
    and "classified_off_topic new"
  shows "(\<exists>sid. resp = Ok200 rejection_text None sid)
       \<and> (\<forall>k. last_recommended_books (history_of store' k)
                 = last_recommended_books (history_of store k)
             \<and> last_query (history_of store' k) = last_query (history_of store k))"
  using assms(1)
proof (cases rule: chatbot_cases)
  case (dispatched data k q sid ut h')
  define h where "h = append_message ''user'' ut (history_of store k)"
  have d: "dispatch env orc q sid h lg = (resp, h', lg @ new)"
    using dispatched(7) by (simp add: h_def)
  have h: "last_recommended_books h = last_recommended_books (history_of store k)"
    "last_query h = last_query (history_of store k)"
    by (simp_all add: h_def append_message_def)
  have other: "history_of store' k' = history_of store k'" if "k' \<noteq> k" for k'
    using that dispatched(8) by (simp add: history_of_other)
  have here: "history_of store' k = h'" using dispatched(8) by simp
  from dispatch_off[OF d assms(2)] have
    "resp = Ok200 rejection_text None sid"
    "last_query h' = last_query h" "last_recommended_books h' = last_recommended_books h"
    by (auto simp: append_message_def)
  then show ?thesis using h other here by metis
qed (use assms(2) in \<open>auto simp: classified_off_topic_def\<close>)

text \<open>
  The theorem at an off-topic request after a recommendation of classics.
\<close>

theorem off_topic_leaves_recommendations_witness:
  "classified_off_topic (snd (snd rejected_run))
   \<and> last_recommended_books (history_of (fst (snd rejected_run)) (KStr ''default'')) = [gatsby]
   \<and> last_query (history_of (fst (snd rejected_run)) (KStr ''default'')) = JStr ''classics''"
proof -
  have run: "chatbot example_env (scripted_client ''null'' ''false'' ''false'') hello_request
      classics_store [] = (fst rejected_run, fst (snd rejected_run), [] @ snd (snd rejected_run))"
    by (simp add: rejected_run_def)
  have off: "classified_off_topic (snd (snd rejected_run))"
    by code_simp
  from off_topic_leaves_recommendations [OF run off] off show ?thesis
    using classics_history by simp
qed

text \<open>
  C8. When the session of the request has no recommended books, the request makes no
  \<^verbatim>\<open>is_book_followup\<close> call; and \<^verbatim>\<open>is_book_followup\<close> itself, on an empty list, returns
  \<^verbatim>\<open>None\<close> without a call.
\<close>

theorem no_book_followup_without_books:
  assumes "chatbot env orc req store lg = (resp, store', lg @ new)"
    and "\<forall>k. request_key req = Some k \<longrightarrow> last_recommended_books (history_of store k) = []"
  shows "IsBookFollowup \<notin> fst ` set new
       \<and> is_book_followup env orc query [] lg0 = (Inr JNull, lg0)"
proof -
  have "IsBookFollowup \<notin> fst ` set new"
    using assms(1)
  proof (cases rule: chatbot_cases)
    case (dispatched data k q sid ut h')
    define h where "h = append_message ''user'' ut (history_of store k)"
    have "last_recommended_books h = []"
      using assms(2) dispatched(3) by (simp add: h_def append_message_def)
    then have "criteria_branch env orc q sid h lg = (resp, h', lg @ new)"
      using dispatched(7) by (simp add: dispatch_def h_def)
    from criteria_branch_order[OF this] show ?thesis by auto
  qed auto
  then show ?thesis by (simp add: is_book_followup_def)
qed

text \<open>
  The theorem at the first request of a session.
\<close>

theorem no_book_followup_without_books_witness:
  "request_key hello_request = Some (KStr ''default'')
   \<and> last_recommended_books (history_of Map.empty (KStr ''default'')) = []
   \<and> IsBookFollowup \<notin> fst ` set (snd (snd off_topic_run))"
proof -
  have run: "chatbot example_env (scripted_client ''null'' ''false'' ''false'') hello_request
      Map.empty [] = (fst off_topic_run, fst (snd off_topic_run), [] @ snd (snd off_topic_run))"
    by (simp add: off_topic_run_def)
  have empty: "\<forall>k. request_key hello_request = Some k
        \<longrightarrow> last_recommended_books (history_of Map.empty k) = []"
    by (simp add: history_of_def new_history_def)
  from no_book_followup_without_books [OF run empty] show ?thesis
    using hello_key by (simp add: history_of_def new_history_def)
qed

section \<open>The follow-up on a book\<close>

text \<open>
  C9, as the code has it. On a non-empty list, \<^verbatim>\<open>is_book_followup\<close> makes one call. It
  raises when the call raises; it returns \<^verbatim>\<open>None\<close> when the reply is \<^verbatim>\<open>null\<close> in any case
  of letters or is not JSON; otherwise it returns the parsed reply as it is, whether or not
  it is one of the books of the list.
\<close>

theorem is_book_followup_result:
  assumes "last_books \<noteq> []"
    and "is_book_followup env orc query last_books lg = (res, lg')"
  shows "\<exists>m r. lg' = lg @ [(IsBookFollowup, m, r)]
       \<and> (case r of
             Raises e \<Rightarrow> res = Inl e
           | Content c \<Rightarrow>
               (lower (strip c) = ''null'' \<longrightarrow> res = Inr JNull)
             \<and> (json_loads env (strip c) = None \<longrightarrow> res = Inr JNull)
             \<and> (lower (strip c) \<noteq> ''null'' \<longrightarrow>
                  (\<forall>v. json_loads env (strip c) = Some v \<longrightarrow> res = Inr v)))"
proof -
  define msgs where "msgs = [(''system'', BookFollowupSystem),
                     (''user'', BookFollowupUser last_books query)]"
  define r where "r = orc (length lg) IsBookFollowup msgs"
  have "lg' = lg @ [(IsBookFollowup, msgs, r)]"
    using assms by (auto simp: is_book_followup_def parse_followup_def create_eq Let_def msgs_def r_def split: reply.splits option.splits if_splits)
  moreover have "(case r of
             Raises e \<Rightarrow> res = Inl e
           | Content c \<Rightarrow>
               (lower (strip c) = ''null'' \<longrightarrow> res = Inr JNull)
             \<and> (json_loads env (strip c) = None \<longrightarrow> res = Inr JNull)
             \<and> (lower (strip c) \<noteq> ''null'' \<longrightarrow>
                  (\<forall>v. json_loads env (strip c) = Some v \<longrightarrow> res = Inr v)))"
    using assms by (auto simp: is_book_followup_def parse_followup_def create_eq Let_def msgs_def r_def split: reply.splits option.splits if_splits)
  ultimately show ?thesis by blast
qed

text \<open>
  C9 as stated fails: the reply may describe a book that was not recommended, or be no book
  at all, and is returned all the same.
\<close>

theorem is_book_followup_outside_list:
  "fst (is_book_followup example_env (constant_client dune_text) (JStr ''tell me more'') [gatsby] [])
     = Inr dune_json
   \<and> dune_json \<noteq> JNull \<and> dune_json \<notin> set [gatsby]
   \<and> fst (is_book_followup example_env (constant_client ''42'') (JStr ''tell me more'') [gatsby] [])
     = Inr (JNum 42)"
  by code_simp

text \<open>
  The theorem at a reply that is not JSON, at \<^verbatim>\<open>Null\<close> between spaces, and at a book.
\<close>

theorem is_book_followup_result_witness:
  "fst (is_book_followup example_env (constant_client ''nothing'') (JStr ''tell me more'') [gatsby] [])
       = Inr JNull
   \<and> fst (is_book_followup example_env (constant_client '' Null '') (JStr ''tell me more'') [gatsby] [])
       = Inr JNull
   \<and> fst (is_book_followup example_env (constant_client dune_text) (JStr ''tell me more'') [gatsby] [])
       = Inr dune_json"
proof -
  have ne: "[gatsby] \<noteq> []" by simp
  have run: "is_book_followup example_env (constant_client c) (JStr ''tell me more'') [gatsby] []
      = (fst (is_book_followup example_env (constant_client c) (JStr ''tell me more'') [gatsby] []),
         snd (is_book_followup example_env (constant_client c) (JStr ''tell me more'') [gatsby] []))"
    for c by simp
  have log: "snd (is_book_followup example_env (constant_client c) (JStr ''tell me more'') [gatsby] [])
      = [(IsBookFollowup, [(''system'', BookFollowupSystem),
                     (''user'', BookFollowupUser [gatsby] (JStr ''tell me more''))], Content c)]" for c
    by (simp add: is_book_followup_def create_eq constant_client_def)
  have a: "json_loads example_env (strip ''nothing'') = None" by code_simp
  have b: "lower (strip '' Null '') = ''null''" by code_simp
  have c: "lower (strip dune_text) \<noteq> ''null''" "json_loads example_env (strip dune_text) = Some dune_json"
    by code_simp+
  show ?thesis
    using is_book_followup_result [OF ne run [of "''nothing''"]]
          is_book_followup_result [OF ne run [of "'' Null ''"]]
          is_book_followup_result [OF ne run [of dune_text]] a b c
    by (auto simp: log)
qed

section \<open>Validation of the request\<close>

text \<open>
  C10. A body whose \<^verbatim>\<open>query\<close> field is falsy (the empty string, \<^verbatim>\<open>0\<close>, \<^verbatim>\<open>false\<close>, \<^verbatim>\<open>null\<close>,
  an empty list or dict) is answered as the same body without the field is: 400 with
  \<^verbatim>\<open>No query provided\<close>, the session store as it was (no session is created or changed) and
  no call to the service.
\<close>

theorem falsy_query_is_missing_query:
  assumes "map_of kvs ''query'' = Some q" and "\<not> truthy q"
  shows "chatbot env orc (Inr (JObj kvs)) store lg = (Err400 ''No query provided'', store, lg)
       \<and> chatbot env orc (Inr (JObj (without_query kvs))) store lg
           = chatbot env orc (Inr (JObj kvs)) store lg"
proof -
  have "map_of (without_query kvs) ''query'' = None"
    by (induction kvs) (auto simp: without_query_def)
  then show ?thesis
    using assms by (simp add: chatbot_def)
qed

text \<open>
  The theorem at a body with an empty query.
\<close>

theorem falsy_query_is_missing_query_witness:
  "chatbot example_env failing_client (Inr (JObj [(''session_id'', JStr ''s1''), (''query'', JStr [])]))
     Map.empty [] = (Err400 ''No query provided'', Map.empty, [])
   \<and> chatbot example_env failing_client (Inr (JObj [(''session_id'', JStr ''s1'')])) Map.empty []
     = (Err400 ''No query provided'', Map.empty, [])"
  using falsy_query_is_missing_query
    [of "[(''session_id'', JStr ''s1''), (''query'', JStr [])]" "JStr []"
        example_env failing_client Map.empty "[]"]
  by (simp add: without_query_def)

end
